theory Spec2Isabelle
  imports Main "HOL-Library.AList"
begin

section \<open>The gosocket hub: data model\<close>

text \<open>
  The source is \<^verbatim>\<open>client.go\<close> (the Client methods and the inbound loop \<^verbatim>\<open>readPump\<close>) and
  \<^verbatim>\<open>server.go\<close> (Message, Server, TypedHandler, the registration API and the hub loop
  \<^verbatim>\<open>run\<close>), with a second version of \<^verbatim>\<open>readPump\<close> in \<^verbatim>\<open>test/main.go\<close>. The outbound loop
  \<^verbatim>\<open>writePump\<close>, which only drains a client's queue onto its stream, and the HTTP side of
  the upgrade are not modelled.

  A \<^verbatim>\<open>*Client\<close> is an address into a store of Client structs, so that the registry and the
  room index hold pointers as the Go maps do. Go maps that the code ranges over are
  association lists (a range visits the entries in some order; every theorem below holds
  for each list, hence for each order); \<^verbatim>\<open>AList.update\<close> and \<^verbatim>\<open>AList.delete\<close> are the map
  assignment and the builtin \<^verbatim>\<open>delete\<close>.
\<close>

type_synonym cref = nat

text \<open>
  A payload is a Go \<^verbatim>\<open>interface{}\<close>. The values that \<^verbatim>\<open>ReadJSON\<close> produces are the six JSON
  kinds; \<^verbatim>\<open>JEmptyBytes\<close> is the \<^verbatim>\<open>[]byte{}\<close> that the hub passes to the lifecycle
  handlers. JSON numbers are float64 in Go; nothing here computes with them, and the
  model carries integers.
\<close>

datatype jvalue =
    JNull
  | JBool bool
  | JNum int
  | JStr string
  | JArr "jvalue list"
  | JObj "(string \<times> jvalue) list"
  | JEmptyBytes

record Message =
  Event :: string
  Data :: jvalue

subsection \<open>Buffered channels\<close>

text \<open>\<^verbatim>\<open>make(chan Message, n)\<close>: the buffered messages, the capacity, and whether it is closed.\<close>

record chan =
  buf :: "Message list"
  cap :: nat
  closed :: bool

definition make_chan :: "nat \<Rightarrow> chan" where
  "make_chan n = \<lparr>buf = [], cap = n, closed = False\<rparr>"

subsection \<open>Client and Server\<close>

datatype Conn = ConnOpen | ConnClosed

text \<open>
  \<^verbatim>\<open>Client.server\<close> is the one Server. \<^verbatim>\<open>Client.mu\<close> is left out: every method that takes
  it releases it before returning and calls nothing that takes the same client's lock, so
  in a sequential run it is free at every acquisition.
\<close>

record Client =
  ID :: string
  conn :: Conn
  send :: chan
  rooms :: "(string \<times> bool) list"

text \<open>
  \<^verbatim>\<open>sync.RWMutex\<close>: the number of read locks held, and whether a writer holds the lock or
  has called \<^verbatim>\<open>Lock\<close> and waits for the readers to leave. Either way new readers wait.
\<close>

record RWMutex =
  readers :: nat
  writer :: bool

text \<open>
  The mutable part of \<^verbatim>\<open>Server\<close>: the registry \<^verbatim>\<open>clients\<close>, the room index
  (\<^verbatim>\<open>Server.rooms\<close>, here \<open>srooms\<close>), the lock, and for each of the three unbuffered
  channels the values of the senders that wait for \<^verbatim>\<open>run\<close> to receive, first come first.
  \<open>heap\<close> is the store of Client structs and \<open>logs\<close> the lines written by \<^verbatim>\<open>log.Printf\<close>.
\<close>

record Server =
  heap :: "cref \<Rightarrow> Client option"
  clients :: "(string \<times> cref) list"
  srooms :: "(string \<times> (string \<times> cref) list) list"
  mu :: RWMutex
  register :: "cref list"
  unregister :: "cref list"
  broadcast :: "Message list"
  logs :: "string list"

subsection \<open>Outcomes\<close>

text \<open>
  What keeps a call from returning. The two channel panics, a nil dereference and an
  unlock of an unlocked mutex end the program. \<open>Blocked s\<close> is a lock acquisition that
  cannot proceed: the goroutine waits, and \<open>s\<close> is the state it leaves to the others. The
  model is sequential: between two operations nobody holds \<^verbatim>\<open>Server.mu\<close> unless an earlier
  operation leaked it or the caller itself holds it, so an acquisition that cannot proceed
  never will.

  \<open>Sending s\<close> is a send on one of the hub's three channels. They are unbuffered, so the
  sender waits in the send until \<^verbatim>\<open>run\<close>, on the hub's goroutine, receives the value: \<open>s\<close>
  is the state the sender leaves, with the value at the end of the channel's list of
  waiting senders. What the sender does once the hub has received is a function of its
  own (\<open>readPump_deferred_close\<close>, \<open>Broadcast_deferred\<close>).
\<close>

datatype fault =
    SendOnClosedChannel
  | CloseOfClosedChannel
  | NilDereference
  | UnlockOfUnlocked
  | Blocked Server
  | Sending Server

definition and_then :: "fault + 'a \<Rightarrow> ('a \<Rightarrow> fault + 'b) \<Rightarrow> fault + 'b" where
  "and_then r f = (case r of Inl e \<Rightarrow> Inl e | Inr x \<Rightarrow> f x)"

text \<open>
  The send case of a \<^verbatim>\<open>select\<close> with a \<^verbatim>\<open>default\<close>: a send on a closed channel panics, a
  send into free buffer space proceeds, and otherwise the default case is taken (\<open>None\<close>).
\<close>

definition try_send :: "Message \<Rightarrow> chan \<Rightarrow> fault + chan option" where
  "try_send m ch =
     (if closed ch then Inl SendOnClosedChannel
      else if length (buf ch) < cap ch then Inr (Some (ch\<lparr>buf := buf ch @ [m]\<rparr>))
      else Inr None)"

definition close_chan :: "chan \<Rightarrow> fault + chan" where
  "close_chan ch = (if closed ch then Inl CloseOfClosedChannel else Inr (ch\<lparr>closed := True\<rparr>))"

text \<open>
  Application callbacks are Go closures: they may call any Client method, so each is a
  function on the Server state that may fault. An \<^verbatim>\<open>EventHandler\<close> is its \<^verbatim>\<open>Handle\<close>
  method, returning the \<^verbatim>\<open>error\<close> (its text) or \<open>None\<close> for nil. The handler table and
  the middleware list are the rest of \<^verbatim>\<open>Server\<close>, kept apart from the state the callbacks
  act on.
\<close>

type_synonym EventHandler = "cref \<Rightarrow> jvalue \<Rightarrow> Server \<Rightarrow> fault + (string option \<times> Server)"

type_synonym Middleware = "cref \<Rightarrow> Message \<Rightarrow> Server \<Rightarrow> fault + (bool \<times> Server)"

record Dispatch =
  handlers :: "string \<Rightarrow> EventHandler option"
  middleware :: "Middleware list"

record 'p TypedHandler =
  handler :: "cref \<Rightarrow> 'p \<Rightarrow> Server \<Rightarrow> fault + Server"

subsection \<open>Server.mu\<close>

text \<open>
  \<^verbatim>\<open>RLock\<close> waits while a writer holds or claims the lock. \<^verbatim>\<open>Lock\<close> waits while another
  writer does; otherwise it claims the lock, and returns once no reader is left.
\<close>

definition RLock :: "Server \<Rightarrow> fault + Server" where
  "RLock s =
     (if writer (mu s) then Inl (Blocked s)
      else Inr (s\<lparr>mu := (mu s)\<lparr>readers := Suc (readers (mu s))\<rparr>\<rparr>))"

definition RUnlock :: "Server \<Rightarrow> fault + Server" where
  "RUnlock s =
     (if readers (mu s) = 0 then Inl UnlockOfUnlocked
      else Inr (s\<lparr>mu := (mu s)\<lparr>readers := readers (mu s) - 1\<rparr>\<rparr>))"

definition Lock :: "Server \<Rightarrow> fault + Server" where
  "Lock s =
     (if writer (mu s) then Inl (Blocked s)
      else if 0 < readers (mu s) then Inl (Blocked (s\<lparr>mu := (mu s)\<lparr>writer := True\<rparr>\<rparr>))
      else Inr (s\<lparr>mu := (mu s)\<lparr>writer := True\<rparr>\<rparr>))"

definition Unlock :: "Server \<Rightarrow> fault + Server" where
  "Unlock s =
     (if \<not> writer (mu s) then Inl UnlockOfUnlocked
      else Inr (s\<lparr>mu := (mu s)\<lparr>writer := False\<rparr>\<rparr>))"

section \<open>client.go\<close>

text \<open>
  The \<^verbatim>\<open>select\<close> of \<^verbatim>\<open>Emit\<close>, which the broadcast case of \<^verbatim>\<open>run\<close> repeats word for word:
  send without blocking, and in the default case close the queue and delete the client's
  ID from the registry.
\<close>

definition send_or_shed :: "cref \<Rightarrow> Message \<Rightarrow> Server \<Rightarrow> fault + Server" where
  "send_or_shed c msg s =
     (case heap s c of
        None \<Rightarrow> Inl NilDereference
      | Some cl \<Rightarrow>
          (case try_send msg (send cl) of
             Inl f \<Rightarrow> Inl f
           | Inr (Some ch) \<Rightarrow> Inr (s\<lparr>heap := (heap s)(c \<mapsto> cl\<lparr>send := ch\<rparr>)\<rparr>)
           | Inr None \<Rightarrow>
               (case close_chan (send cl) of
                  Inl f \<Rightarrow> Inl f
                | Inr ch \<Rightarrow>
                    Inr (s\<lparr>heap := (heap s)(c \<mapsto> cl\<lparr>send := ch\<rparr>),
                           clients := AList.delete (ID cl) (clients s)\<rparr>))))"

definition Emit :: "cref \<Rightarrow> string \<Rightarrow> jvalue \<Rightarrow> Server \<Rightarrow> fault + Server" where
  "Emit c event data s = send_or_shed c \<lparr>Event = event, Data = data\<rparr> s"

definition Join :: "cref \<Rightarrow> string \<Rightarrow> Server \<Rightarrow> fault + Server" where
  "Join c room s =
     (case heap s c of
        None \<Rightarrow> Inl NilDereference
      | Some cl \<Rightarrow>
          (let members = (case map_of (srooms s) room of None \<Rightarrow> [] | Some m \<Rightarrow> m)
           in Inr (s\<lparr>heap := (heap s)(c \<mapsto> cl\<lparr>rooms := AList.update room True (rooms cl)\<rparr>),
                     srooms := AList.update room (AList.update (ID cl) c members) (srooms s)\<rparr>)))"

text \<open>\<^verbatim>\<open>Server.leaveRoom\<close> (server.go), which \<^verbatim>\<open>Leave\<close> calls.\<close>

definition leaveRoom :: "cref \<Rightarrow> string \<Rightarrow> Server \<Rightarrow> fault + Server" where
  "leaveRoom client room s =
     and_then (Lock s) (\<lambda>s1.
       case heap s1 client of
         None \<Rightarrow> Inl NilDereference
       | Some cl \<Rightarrow>
           (let s2 =
              (case map_of (srooms s1) room of
                 None \<Rightarrow> s1
               | Some members \<Rightarrow>
                   (let members' = AList.delete (ID cl) members
                    in if length members' = 0
                       then s1\<lparr>srooms := AList.delete room (srooms s1)\<rparr>
                       else s1\<lparr>srooms := AList.update room members' (srooms s1)\<rparr>))
            in Unlock (s2\<lparr>heap := (heap s2)(client \<mapsto> cl\<lparr>rooms := AList.delete room (rooms cl)\<rparr>)\<rparr>)))"

definition Leave :: "cref \<Rightarrow> string \<Rightarrow> Server \<Rightarrow> fault + Server" where
  "Leave c room s = leaveRoom c room s"

text \<open>The range loop of \<^verbatim>\<open>BroadcastToRoom\<close> over the members of the room.\<close>

fun room_loop :: "string \<Rightarrow> string \<Rightarrow> jvalue \<Rightarrow> (string \<times> cref) list \<Rightarrow> Server \<Rightarrow> fault + Server" where
  "room_loop cid event data [] s = Inr s"
| "room_loop cid event data ((k, client) # rest) s =
     (case heap s client of
        None \<Rightarrow> Inl NilDereference
      | Some m \<Rightarrow>
          if ID m \<noteq> cid
          then and_then (Emit client event data s) (room_loop cid event data rest)
          else room_loop cid event data rest s)"

definition BroadcastToRoom :: "cref \<Rightarrow> string \<Rightarrow> string \<Rightarrow> jvalue \<Rightarrow> Server \<Rightarrow> fault + Server" where
  "BroadcastToRoom c room event data s =
     (case heap s c of
        None \<Rightarrow> Inl NilDereference
      | Some cl \<Rightarrow>
          and_then (RLock s) (\<lambda>s1.
            and_then
              (case map_of (srooms s1) room of
                 None \<Rightarrow> Inr s1
               | Some members \<Rightarrow> room_loop (ID cl) event data members s1)
              RUnlock))"

text \<open>
  \<^verbatim>\<open>Broadcast\<close> takes the read lock and sends the message on the hub's \<^verbatim>\<open>broadcast\<close>
  channel, where it waits, the read lock held, until \<^verbatim>\<open>run\<close> receives; the fan-out is the
  broadcast case of \<^verbatim>\<open>run\<close>. Once the hub has received, the call returns through its
  deferred \<^verbatim>\<open>RUnlock\<close>.
\<close>

definition Broadcast :: "cref \<Rightarrow> string \<Rightarrow> jvalue \<Rightarrow> Server \<Rightarrow> fault + Server" where
  "Broadcast c event data s =
     (case heap s c of
        None \<Rightarrow> Inl NilDereference
      | Some cl \<Rightarrow>
          and_then (RLock s) (\<lambda>s1.
            Inl (Sending (s1\<lparr>broadcast := broadcast s1 @ [\<lparr>Event = event, Data = data\<rparr>]\<rparr>))))"

definition Broadcast_deferred :: "Server \<Rightarrow> fault + Server" where
  "Broadcast_deferred s = RUnlock s"

subsection \<open>The inbound loop\<close>

text \<open>
  What one call of \<^verbatim>\<open>ReadJSON\<close> returns: a decoded message, a \<^verbatim>\<open>*websocket.CloseError\<close>
  with its code, or any other error (a frame that is not valid JSON for a Message, an
  I/O error), each error with its text. The loop is run on the finite list of results
  read so far; at its end the pump is waiting in \<^verbatim>\<open>ReadJSON\<close>.
\<close>

datatype ReadResult =
    Frame Message
  | CloseError nat string
  | OtherError string

text \<open>Where the pump is at the end of a run: waiting in \<^verbatim>\<open>ReadJSON\<close>, or returned.\<close>

datatype PumpStatus = Reading | TornDown

definition IsUnexpectedCloseError :: "ReadResult \<Rightarrow> nat list \<Rightarrow> bool" where
  "IsUnexpectedCloseError err expected =
     (case err of CloseError code txt \<Rightarrow> code \<notin> set expected | _ \<Rightarrow> False)"

definition error_text :: "ReadResult \<Rightarrow> string" where
  "error_text err = (case err of CloseError code txt \<Rightarrow> txt | OtherError txt \<Rightarrow> txt | Frame m \<Rightarrow> [])"

definition CloseGoingAway :: nat where
  "CloseGoingAway = 1001"

definition CloseAbnormalClosure :: nat where
  "CloseAbnormalClosure = 1006"

definition log_line :: "string \<Rightarrow> Server \<Rightarrow> Server" where
  "log_line l s = s\<lparr>logs := logs s @ [l]\<rparr>"

text \<open>The middleware loop: \<^verbatim>\<open>shouldContinue\<close> and the state the predicates left.\<close>

fun run_middleware :: "Middleware list \<Rightarrow> cref \<Rightarrow> Message \<Rightarrow> Server \<Rightarrow> fault + (bool \<times> Server)" where
  "run_middleware [] c msg s = Inr (True, s)"
| "run_middleware (mw # rest) c msg s =
     (case mw c msg s of
        Inl f \<Rightarrow> Inl f
      | Inr (ok, s') \<Rightarrow> if \<not> ok then Inr (False, s') else run_middleware rest c msg s')"

text \<open>
  The deferred function of \<^verbatim>\<open>readPump\<close> has two statements. The first sends the client
  on \<^verbatim>\<open>unregister\<close>, and the pump waits there. The second, \<^verbatim>\<open>c.conn.Close()\<close>, runs once
  the hub has received the client: a pump sends its client once at a time and nobody else
  sends it, so that is when the client is no longer among the waiting senders.
\<close>

definition readPump_deferred :: "cref \<Rightarrow> Server \<Rightarrow> fault + (PumpStatus \<times> Server)" where
  "readPump_deferred c s = Inl (Sending (s\<lparr>unregister := unregister s @ [c]\<rparr>))"

definition readPump_deferred_close :: "cref \<Rightarrow> Server \<Rightarrow> fault + (PumpStatus \<times> Server)" where
  "readPump_deferred_close c s =
     (if c \<in> set (unregister s) then Inl (Sending s)
      else case heap s c of
        None \<Rightarrow> Inl NilDereference
      | Some cl \<Rightarrow> Inr (TornDown, s\<lparr>heap := (heap s)(c \<mapsto> cl\<lparr>conn := ConnClosed\<rparr>)\<rparr>))"

text \<open>
  Dispatch of one message that passed the middleware, up to the point where the loop goes
  round: the handler's error path leaves by \<^verbatim>\<open>continue\<close>, before \<^verbatim>\<open>RUnlock\<close>.
\<close>

definition dispatch :: "Dispatch \<Rightarrow> cref \<Rightarrow> Message \<Rightarrow> Server \<Rightarrow> fault + Server" where
  "dispatch d c msg s =
     and_then (RLock s) (\<lambda>s1.
       case handlers d (Event msg) of
         None \<Rightarrow> RUnlock s1
       | Some h \<Rightarrow>
           and_then (h c (Data msg) s1) (\<lambda>(err, s2).
             case err of
               Some e \<Rightarrow> Inr (log_line (''Error handling event '' @ Event msg @ '': '' @ e) s2)
             | None \<Rightarrow> RUnlock s2))"

fun readPump :: "Dispatch \<Rightarrow> cref \<Rightarrow> ReadResult list \<Rightarrow> Server \<Rightarrow> fault + (PumpStatus \<times> Server)" where
  "readPump d c [] s = Inr (Reading, s)"
| "readPump d c (Frame msg # rest) s =
     and_then (run_middleware (middleware d) c msg s) (\<lambda>(shouldContinue, s1).
       if \<not> shouldContinue then readPump d c rest s1
       else and_then (dispatch d c msg s1) (readPump d c rest))"
| "readPump d c (err # rest) s =
     readPump_deferred c
       (if IsUnexpectedCloseError err [CloseGoingAway, CloseAbnormalClosure]
        then log_line (''WebSocket error: '' @ error_text err) s
        else s)"

text \<open>
  The \<^verbatim>\<open>readPump\<close> of \<^verbatim>\<open>test/main.go\<close>: a close error with code 1001 or 1006 is retried
  (after a sleep) up to \<^verbatim>\<open>reconnectAttempt > 15\<close>, any other error is logged and the loop
  continues. Past the fifteenth retry the loop itself sends the client on \<^verbatim>\<open>unregister\<close>;
  once the hub has received, it breaks and the deferred function sends the client again.
\<close>

fun readPump_variant :: "Dispatch \<Rightarrow> cref \<Rightarrow> nat \<Rightarrow> ReadResult list \<Rightarrow> Server \<Rightarrow> fault + (PumpStatus \<times> Server)" where
  "readPump_variant d c reconnectAttempt [] s = Inr (Reading, s)"
| "readPump_variant d c reconnectAttempt (Frame msg # rest) s =
     and_then (run_middleware (middleware d) c msg s) (\<lambda>(shouldContinue, s1).
       if \<not> shouldContinue then readPump_variant d c reconnectAttempt rest s1
       else and_then (dispatch d c msg s1) (readPump_variant d c reconnectAttempt rest))"
| "readPump_variant d c reconnectAttempt (CloseError code txt # rest) s =
     (if code = 1001 \<or> code = 1006
      then (if 15 < reconnectAttempt
            then Inl (Sending (s\<lparr>unregister := unregister s @ [c]\<rparr>))
            else readPump_variant d c (reconnectAttempt + 1) rest s)
      else readPump_variant d c reconnectAttempt rest
             (log_line (''WebSocket read error: '' @ txt) s))"
| "readPump_variant d c reconnectAttempt (OtherError txt # rest) s =
     readPump_variant d c reconnectAttempt rest (log_line (''WebSocket read error: '' @ txt) s)"

section \<open>server.go\<close>

text \<open>
  \<^verbatim>\<open>TypedHandler[T].Handle\<close>. \<^verbatim>\<open>json.Marshal\<close> and \<^verbatim>\<open>json.Unmarshal\<close> into a \<^verbatim>\<open>T\<close> belong to
  \<^verbatim>\<open>encoding/json\<close> and are parameters: each returns its error text or its result. The
  encoded bytes are of any type \<open>'w\<close>.
\<close>

definition Handle :: "(jvalue \<Rightarrow> string + 'w) \<Rightarrow> ('w \<Rightarrow> string + 'p) \<Rightarrow> 'p TypedHandler \<Rightarrow> EventHandler" where
  "Handle marshal unmarshal th client data s =
     (case marshal data of
        Inl err \<Rightarrow> Inr (Some err, s)
      | Inr bytes \<Rightarrow>
          (case unmarshal bytes of
             Inl err \<Rightarrow> Inr (Some err, s)
           | Inr payload \<Rightarrow>
               and_then (handler th client payload s) (\<lambda>s'. Inr (None, s'))))"

definition NewServer :: "Server \<times> Dispatch" where
  "NewServer =
     (\<lparr>heap = (\<lambda>a. None), clients = [], srooms = [],
       mu = \<lparr>readers = 0, writer = False\<rparr>,
       register = [], unregister = [], broadcast = [], logs = []\<rparr>,
      \<lparr>handlers = (\<lambda>e. None), middleware = []\<rparr>)"

definition Use :: "Middleware \<Rightarrow> Dispatch \<Rightarrow> Dispatch" where
  "Use mw d = d\<lparr>middleware := middleware d @ [mw]\<rparr>"

text \<open>\<^verbatim>\<open>OnTyped\<close> and \<^verbatim>\<open>On\<close> write the table under \<^verbatim>\<open>s.mu.Lock()\<close>, released on return.\<close>

definition OnTyped ::
  "(jvalue \<Rightarrow> string + 'w) \<Rightarrow> ('w \<Rightarrow> string + 'p) \<Rightarrow> string \<Rightarrow>
   (cref \<Rightarrow> 'p \<Rightarrow> Server \<Rightarrow> fault + Server) \<Rightarrow> Server \<Rightarrow> Dispatch \<Rightarrow> fault + Dispatch" where
  "OnTyped marshal unmarshal event h s d =
     and_then (Lock s) (\<lambda>s1.
       Inr (d\<lparr>handlers := (handlers d)(event \<mapsto> Handle marshal unmarshal \<lparr>handler = h\<rparr>)\<rparr>))"

definition On ::
  "(jvalue \<Rightarrow> string + 'w) \<Rightarrow> ('w \<Rightarrow> string + jvalue) \<Rightarrow> string \<Rightarrow>
   (cref \<Rightarrow> jvalue \<Rightarrow> Server \<Rightarrow> fault + Server) \<Rightarrow> Server \<Rightarrow> Dispatch \<Rightarrow> fault + Dispatch" where
  "On marshal unmarshal event h s d =
     and_then (Lock s) (\<lambda>s1.
       Inr (d\<lparr>handlers := (handlers d)(event \<mapsto>
              Handle marshal unmarshal \<lparr>handler = (\<lambda>client data. h client data)\<rparr>)\<rparr>))"

text \<open>
  \<^verbatim>\<open>handleWebSocket\<close>: what the auth gate said and the error of the upgrade, if any, are
  arguments. When both pass, a new Client (its address and its UUID are arguments too)
  with a queue of 256 and no rooms is sent on \<^verbatim>\<open>register\<close>. The result is the state in
  which the HTTP handler waits in that send; what follows it, once the hub has received,
  starts the two pumps and changes nothing here.
\<close>

definition handleWebSocket :: "bool \<Rightarrow> string option \<Rightarrow> cref \<Rightarrow> string \<Rightarrow> Server \<Rightarrow> Server" where
  "handleWebSocket auth_ok upgrade_err a uuid s =
     (if \<not> auth_ok then s
      else case upgrade_err of
        Some err \<Rightarrow> log_line (''Failed to upgrade connection: '' @ err) s
      | None \<Rightarrow>
        s\<lparr>heap := (heap s)(a \<mapsto> \<lparr>ID = uuid, conn = ConnOpen, send = make_chan 256, rooms = []\<rparr>),
             register := register s @ [a]\<rparr>)"

subsection \<open>The hub loop\<close>

text \<open>The lifecycle handlers are called with \<^verbatim>\<open>[]byte{}\<close>; the error they return is dropped.\<close>

definition fire :: "Dispatch \<Rightarrow> string \<Rightarrow> cref \<Rightarrow> Server \<Rightarrow> fault + Server" where
  "fire d event client s =
     (case handlers d event of
        None \<Rightarrow> Inr s
      | Some h \<Rightarrow> and_then (h client JEmptyBytes s) (\<lambda>(err, s'). Inr s'))"

definition run_register :: "Dispatch \<Rightarrow> cref \<Rightarrow> Server \<Rightarrow> fault + Server" where
  "run_register d client s =
     (case heap s client of
        None \<Rightarrow> Inl NilDereference
      | Some cl \<Rightarrow>
          and_then (Lock s) (\<lambda>s1.
            and_then (Unlock (s1\<lparr>clients := AList.update (ID cl) client (clients s1)\<rparr>)) (\<lambda>s2.
              fire d ''connect'' client (log_line (''Client '' @ ID cl @ '' connected'') s2))))"

text \<open>
  The loop over \<^verbatim>\<open>client.rooms\<close> in the unregister case. Each \<^verbatim>\<open>leaveRoom\<close> deletes the
  key it was called with and no other, so the range visits every key of the snapshot.
\<close>

fun leave_rooms :: "cref \<Rightarrow> string list \<Rightarrow> Server \<Rightarrow> fault + Server" where
  "leave_rooms client [] s = Inr s"
| "leave_rooms client (room # rest) s =
     and_then (leaveRoom client room s) (leave_rooms client rest)"

definition run_unregister :: "Dispatch \<Rightarrow> cref \<Rightarrow> Server \<Rightarrow> fault + Server" where
  "run_unregister d client s =
     (case heap s client of
        None \<Rightarrow> Inl NilDereference
      | Some cl \<Rightarrow>
          and_then (Lock s) (\<lambda>s1.
            and_then
              (case map_of (clients s1) (ID cl) of
                 None \<Rightarrow> Inr s1
               | Some registered \<Rightarrow>
                   and_then (close_chan (send cl)) (\<lambda>ch.
                     leave_rooms client (map fst (rooms cl))
                       (s1\<lparr>clients := AList.delete (ID cl) (clients s1),
                           heap := (heap s1)(client \<mapsto> cl\<lparr>send := ch\<rparr>)\<rparr>)))
              (\<lambda>s2.
                 and_then (Unlock s2) (\<lambda>s3.
                   fire d ''disconnect'' client
                     (log_line (''Client '' @ ID cl @ '' disconnected'') s3)))))"

text \<open>
  The range over the registry in the broadcast case. An entry deleted before the range
  reaches it is not produced.
\<close>

fun broadcast_loop :: "Message \<Rightarrow> (string \<times> cref) list \<Rightarrow> Server \<Rightarrow> fault + Server" where
  "broadcast_loop message [] s = Inr s"
| "broadcast_loop message ((k, client) # rest) s =
     (if map_of (clients s) k = None then broadcast_loop message rest s
      else and_then (send_or_shed client message s) (broadcast_loop message rest))"

definition run_broadcast :: "Message \<Rightarrow> Server \<Rightarrow> fault + Server" where
  "run_broadcast message s =
     and_then (RLock s) (\<lambda>s1.
       and_then (broadcast_loop message (clients s1) s1) RUnlock)"

text \<open>
  \<^verbatim>\<open>run\<close>: each round of the loop receives from one of the three channels that has a
  sender waiting. The list says which channel each \<^verbatim>\<open>select\<close> picks; a channel with no
  sender is not picked.
\<close>

datatype Choice = RecvRegister | RecvUnregister | RecvBroadcast

fun run :: "Dispatch \<Rightarrow> Choice list \<Rightarrow> Server \<Rightarrow> fault + Server" where
  "run d [] s = Inr s"
| "run d (RecvRegister # rest) s =
     (case register s of
        [] \<Rightarrow> run d rest s
      | client # q \<Rightarrow> and_then (run_register d client (s\<lparr>register := q\<rparr>)) (run d rest))"
| "run d (RecvUnregister # rest) s =
     (case unregister s of
        [] \<Rightarrow> run d rest s
      | client # q \<Rightarrow> and_then (run_unregister d client (s\<lparr>unregister := q\<rparr>)) (run d rest))"
| "run d (RecvBroadcast # rest) s =
     (case broadcast s of
        [] \<Rightarrow> run d rest s
      | message # q \<Rightarrow> and_then (run_broadcast message (s\<lparr>broadcast := q\<rparr>)) (run d rest))"

section \<open>Vocabulary of the properties\<close>

text \<open>What \<^verbatim>\<open>Handle\<close> passes to the typed handler: the payload marshalled, then unmarshalled.\<close>

definition decoded :: "(jvalue \<Rightarrow> string + 'w) \<Rightarrow> ('w \<Rightarrow> string + 'p) \<Rightarrow> jvalue \<Rightarrow> string + 'p" where
  "decoded marshal unmarshal data =
     (case marshal data of Inl err \<Rightarrow> Inl err | Inr bytes \<Rightarrow> unmarshal bytes)"

text \<open>A client after the \<^verbatim>\<open>select\<close> of \<^verbatim>\<open>Emit\<close> on its open queue.\<close>

definition emitted :: "Message \<Rightarrow> Client \<Rightarrow> Client" where
  "emitted msg m =
     (if length (buf (send m)) < cap (send m)
      then m\<lparr>send := (send m)\<lparr>buf := buf (send m) @ [msg]\<rparr>\<rparr>
      else m\<lparr>send := (send m)\<lparr>closed := True\<rparr>\<rparr>)"

text \<open>
  Room membership on both sides: \<open>r\<close> is a key of the client's \<^verbatim>\<open>rooms\<close>, and the client's
  ID is a key of the room index entry of \<open>r\<close>.
\<close>

definition in_local :: "Client \<Rightarrow> string \<Rightarrow> bool" where
  "in_local cl r = (map_of (rooms cl) r \<noteq> None)"

definition in_index :: "Server \<Rightarrow> string \<Rightarrow> string \<Rightarrow> bool" where
  "in_index s r cid =
     (case map_of (srooms s) r of None \<Rightarrow> False | Some m \<Rightarrow> map_of m cid \<noteq> None)"

definition rooms_agree :: "Server \<Rightarrow> bool" where
  "rooms_agree s = (\<forall>a cl r. heap s a = Some cl \<longrightarrow> in_local cl r = in_index s r (ID cl))"

definition no_empty_rooms :: "Server \<Rightarrow> bool" where
  "no_empty_rooms s = (\<forall>r m. map_of (srooms s) r = Some m \<longrightarrow> m \<noteq> [])"

text \<open>Client IDs come from \<^verbatim>\<open>uuid.NewString()\<close>: no two Client structs share one.\<close>

definition unique_ids :: "Server \<Rightarrow> bool" where
  "unique_ids s =
     (\<forall>a b ca cb. heap s a = Some ca \<longrightarrow> heap s b = Some cb \<longrightarrow> ID ca = ID cb \<longrightarrow> a = b)"

definition lock_free :: "Server \<Rightarrow> bool" where
  "lock_free s = (readers (mu s) = 0 \<and> \<not> writer (mu s))"

text \<open>Sequences of \<^verbatim>\<open>Join\<close> and \<^verbatim>\<open>Leave\<close> calls.\<close>

datatype RoomOp = DoJoin cref string | DoLeave cref string

fun op_client :: "RoomOp \<Rightarrow> cref" where
  "op_client (DoJoin c r) = c"
| "op_client (DoLeave c r) = c"

fun apply_op :: "RoomOp \<Rightarrow> Server \<Rightarrow> fault + Server" where
  "apply_op (DoJoin c r) s = Join c r s"
| "apply_op (DoLeave c r) s = Leave c r s"

fun apply_ops :: "RoomOp list \<Rightarrow> Server \<Rightarrow> fault + Server" where
  "apply_ops [] s = Inr s"
| "apply_ops (x # xs) s = and_then (apply_op x s) (apply_ops xs)"

section \<open>Example data\<close>

text \<open>
  The application of \<^verbatim>\<open>test/main.go\<close>, cut down to what the examples run. The encoded
  bytes are written as the JSON document they spell. \<^verbatim>\<open>json.Marshal\<close> of \<^verbatim>\<open>[]byte{}\<close> is the
  JSON string of its base64 text, the empty string; a JSON value marshals to itself.
  \<^verbatim>\<open>json.Unmarshal\<close> into \<^verbatim>\<open>interface{}\<close> returns the document; into
  \<^verbatim>\<open>JoinRoomData\<close> it wants an object (or null). It goes through the keys of the object,
  takes those that spell \<^verbatim>\<open>room\<close> in upper or lower case, and wants a string (or null,
  which it skips) at each; its error names the JSON kind it found instead.
\<close>

definition ex_Marshal :: "jvalue \<Rightarrow> string + jvalue" where
  "ex_Marshal v = Inr (case v of JEmptyBytes \<Rightarrow> JStr [] | _ \<Rightarrow> v)"

definition ex_Unmarshal_any :: "jvalue \<Rightarrow> string + jvalue" where
  "ex_Unmarshal_any w = Inr w"

definition json_kind :: "jvalue \<Rightarrow> string" where
  "json_kind v =
     (case v of
        JNull \<Rightarrow> ''null''
      | JBool b \<Rightarrow> ''bool''
      | JNum n \<Rightarrow> ''number''
      | JStr txt \<Rightarrow> ''string''
      | JArr vs \<Rightarrow> ''array''
      | JObj kvs \<Rightarrow> ''object''
      | JEmptyBytes \<Rightarrow> ''string'')"

definition to_lower :: "char \<Rightarrow> char" where
  "to_lower ch =
     (case map_of (zip ''ABCDEFGHIJKLMNOPQRSTUVWXYZ'' ''abcdefghijklmnopqrstuvwxyz'') ch of
        None \<Rightarrow> ch
      | Some l \<Rightarrow> l)"

fun ex_room_field :: "(string \<times> jvalue) list \<Rightarrow> string \<Rightarrow> string + string" where
  "ex_room_field [] room = Inr room"
| "ex_room_field ((k, v) # kvs) room =
     (if map to_lower k = ''room''
      then (case v of
              JStr r \<Rightarrow> ex_room_field kvs r
            | JNull \<Rightarrow> ex_room_field kvs room
            | other \<Rightarrow> Inl (''json: cannot unmarshal '' @ json_kind other @
                             '' into Go struct field JoinRoomData.room of type string''))
      else ex_room_field kvs room)"

definition ex_Unmarshal_JoinRoomData :: "jvalue \<Rightarrow> string + string" where
  "ex_Unmarshal_JoinRoomData w =
     (case w of
        JObj kvs \<Rightarrow> ex_room_field kvs []
      | JNull \<Rightarrow> Inr []
      | other \<Rightarrow> Inl (''json: cannot unmarshal '' @ json_kind other @
                       '' into Go value of type main.JoinRoomData''))"

text \<open>The handlers: \<^verbatim>\<open>join\<close> joins the room and answers \<^verbatim>\<open>joined\<close>; \<^verbatim>\<open>disconnect\<close> logs.\<close>

definition ex_join :: "cref \<Rightarrow> string \<Rightarrow> Server \<Rightarrow> fault + Server" where
  "ex_join client room s =
     and_then (Join client room s) (Emit client ''joined'' (JObj [(''room'', JStr room)]))"

definition ex_bye :: "cref \<Rightarrow> jvalue \<Rightarrow> Server \<Rightarrow> fault + Server" where
  "ex_bye client data s =
     (case heap s client of
        None \<Rightarrow> Inl NilDereference
      | Some cl \<Rightarrow> Inr (log_line (''bye '' @ ID cl) s))"

text \<open>An untyped handler that writes down what it was given.\<close>

definition ex_show :: "cref \<Rightarrow> jvalue \<Rightarrow> Server \<Rightarrow> fault + Server" where
  "ex_show client data s =
     Inr (log_line (case data of JStr txt \<Rightarrow> ''string '' @ txt | JEmptyBytes \<Rightarrow> ''bytes'' | _ \<Rightarrow> ''other'') s)"

text \<open>Middleware: one that logs the event and lets it pass, one that blocks, one that logs.\<close>

definition ex_mw_log :: Middleware where
  "ex_mw_log client msg s = Inr (True, log_line (''sent event: '' @ Event msg) s)"

definition ex_mw_block :: Middleware where
  "ex_mw_block client msg s = Inr (False, s)"

definition ex_mw_late :: Middleware where
  "ex_mw_late client msg s = Inr (True, log_line ''late'' s)"

definition ex_none :: Dispatch where
  "ex_none = \<lparr>handlers = (\<lambda>e. None), middleware = []\<rparr>"

definition ex_app :: Dispatch where
  "ex_app =
     \<lparr>handlers = [''join'' \<mapsto> Handle ex_Marshal ex_Unmarshal_JoinRoomData \<lparr>handler = ex_join\<rparr>,
                  ''disconnect'' \<mapsto> Handle ex_Marshal ex_Unmarshal_any \<lparr>handler = (\<lambda>client data. ex_bye client data)\<rparr>],
      middleware = [ex_mw_log]\<rparr>"

definition ex_guarded :: Dispatch where
  "ex_guarded = ex_app\<lparr>middleware := [ex_mw_log, ex_mw_block, ex_mw_late]\<rparr>"

text \<open>Clients as \<^verbatim>\<open>handleWebSocket\<close> makes them, and one whose queue of 256 is full.\<close>

definition ex_client :: "string \<Rightarrow> Client" where
  "ex_client uuid = \<lparr>ID = uuid, conn = ConnOpen, send = make_chan 256, rooms = []\<rparr>"

definition ping :: Message where
  "ping = \<lparr>Event = ''ping'', Data = JObj [(''n'', JNum 1)]\<rparr>"

definition ex_stalled :: "string \<Rightarrow> Client" where
  "ex_stalled uuid = (ex_client uuid)\<lparr>send := (make_chan 256)\<lparr>buf := replicate 256 ping\<rparr>\<rparr>"

text \<open>Two sessions A and B, registered.\<close>

definition ex_two :: Server where
  "ex_two =
     \<lparr>heap = [0 \<mapsto> ex_client ''A'', 1 \<mapsto> ex_client ''B''],
      clients = [(''A'', 0), (''B'', 1)], srooms = [],
      mu = \<lparr>readers = 0, writer = False\<rparr>,
      register = [], unregister = [], broadcast = [],
      logs = [''Client A connected'', ''Client B connected'']\<rparr>"

text \<open>
  Four sessions: A, B and the stalled D are in the room lobby; C joined it and left again.
\<close>

definition ex_lobby :: Server where
  "ex_lobby =
     \<lparr>heap = [0 \<mapsto> (ex_client ''A'')\<lparr>rooms := [(''lobby'', True)]\<rparr>,
              1 \<mapsto> (ex_client ''B'')\<lparr>rooms := [(''lobby'', True)]\<rparr>,
              2 \<mapsto> ex_client ''C'',
              3 \<mapsto> (ex_stalled ''D'')\<lparr>rooms := [(''lobby'', True)]\<rparr>],
      clients = [(''A'', 0), (''B'', 1), (''C'', 2), (''D'', 3)],
      srooms = [(''lobby'', [(''A'', 0), (''B'', 1), (''D'', 3)])],
      mu = \<lparr>readers = 0, writer = False\<rparr>,
      register = [], unregister = [], broadcast = [], logs = []\<rparr>"

text \<open>
  The server of \<open>ex_lobby\<close> after an \<^verbatim>\<open>Emit\<close> on D, and after a \<^verbatim>\<open>BroadcastToRoom\<close> by A to the
  lobby: D's queue is closed and D is gone from the registry, not from the room index.
\<close>

definition ex_shed :: Server where
  "ex_shed =
     ex_lobby\<lparr>heap := [0 \<mapsto> (ex_client ''A'')\<lparr>rooms := [(''lobby'', True)]\<rparr>,
                       1 \<mapsto> (ex_client ''B'')\<lparr>rooms := [(''lobby'', True)]\<rparr>,
                       2 \<mapsto> ex_client ''C'',
                       3 \<mapsto> (ex_stalled ''D'')\<lparr>rooms := [(''lobby'', True)],
                                    send := (make_chan 256)\<lparr>buf := replicate 256 ping, closed := True\<rparr>\<rparr>],
               clients := [(''A'', 0), (''B'', 1), (''C'', 2)]\<rparr>"

definition ex_lobby_pinged :: Server where
  "ex_lobby_pinged =
     ex_lobby\<lparr>heap := [0 \<mapsto> (ex_client ''A'')\<lparr>rooms := [(''lobby'', True)]\<rparr>,
                       1 \<mapsto> (ex_client ''B'')\<lparr>rooms := [(''lobby'', True)],
                                    send := (make_chan 256)\<lparr>buf := [ping]\<rparr>\<rparr>,
                       2 \<mapsto> ex_client ''C'',
                       3 \<mapsto> (ex_stalled ''D'')\<lparr>rooms := [(''lobby'', True)],
                                    send := (make_chan 256)\<lparr>buf := replicate 256 ping, closed := True\<rparr>\<rparr>],
               clients := [(''A'', 0), (''B'', 1), (''C'', 2)]\<rparr>"

text \<open>Inbound messages: a well-formed \<^verbatim>\<open>join\<close>, one whose payload is no JoinRoomData, and an event nobody handles.\<close>

definition ex_join_lobby :: Message where
  "ex_join_lobby = \<lparr>Event = ''join'', Data = JObj [(''room'', JStr ''lobby'')]\<rparr>"

definition ex_join_bad :: Message where
  "ex_join_bad = \<lparr>Event = ''join'', Data = JStr ''lobby''\<rparr>"

definition ex_unknown :: Message where
  "ex_unknown = \<lparr>Event = ''dance'', Data = JNull\<rparr>"

text \<open>A after its \<^verbatim>\<open>join\<close> was handled: in the lobby, with the answer queued.\<close>

definition ex_A_joined :: Client where
  "ex_A_joined =
     (ex_client ''A'')\<lparr>rooms := [(''lobby'', True)],
       send := (make_chan 256)\<lparr>buf := [\<lparr>Event = ''joined'', Data = JObj [(''room'', JStr ''lobby'')]\<rparr>]\<rparr>\<rparr>"

text \<open>The server of \<open>ex_two\<close> after A was deregistered once.\<close>

definition ex_gone :: Server where
  "ex_gone =
     ex_two\<lparr>heap := [0 \<mapsto> (ex_client ''A'')\<lparr>send := (make_chan 256)\<lparr>closed := True\<rparr>\<rparr>,
                     1 \<mapsto> ex_client ''B''],
             clients := [(''B'', 1)],
             logs := logs ex_two @ [''Client A disconnected'', ''bye A'']\<rparr>"

text \<open>
  The server of \<open>ex_two\<close> while A waits in the send of its \<^verbatim>\<open>Broadcast\<close> of \<open>ping\<close>, the read
  lock held.
\<close>

definition ex_ping_sent :: Server where
  "ex_ping_sent = ex_two\<lparr>mu := \<lparr>readers = 1, writer = False\<rparr>, broadcast := [ping]\<rparr>"

text \<open>
  The server of \<open>ex_two\<close> after A sent \<open>ex_join_bad\<close>, and then after the hub tried to
  register a third client C.
\<close>

definition ex_leaked :: Server where
  "ex_leaked =
     ex_two\<lparr>mu := \<lparr>readers = 1, writer = False\<rparr>,
             logs := logs ex_two @
               [''sent event: join'',
                ''Error handling event join: json: cannot unmarshal string into Go value of type main.JoinRoomData'']\<rparr>"

definition ex_stuck :: Server where
  "ex_stuck =
     ex_leaked\<lparr>heap := [0 \<mapsto> ex_client ''A'', 1 \<mapsto> ex_client ''B'', 2 \<mapsto> ex_client ''C''],
                mu := \<lparr>readers = 1, writer = True\<rparr>\<rparr>"

section \<open>Basic facts\<close>

lemma and_then_simps:
  "and_then (Inl e) f = Inl e"
  "and_then (Inr x) f = f x"
  by (simp_all add: and_then_def)

lemma mu_restore_writer: "\<not> writer (mu s) \<Longrightarrow> s\<lparr>mu := (mu s)\<lparr>writer := False\<rparr>\<rparr> = s"
  by simp

lemma ex_two_reachable:
  "run (snd NewServer) [RecvRegister, RecvRegister]
     (handleWebSocket True None 1 ''B'' (handleWebSocket True None 0 ''A'' (fst NewServer))) =
   Inr ex_two"
  by (simp add: NewServer_def handleWebSocket_def run_register_def Lock_def Unlock_def fire_def
        log_line_def and_then_simps ex_two_def ex_client_def fun_upd_twist)

lemma ex_Unmarshal_JoinRoomData_examples:
  "ex_Unmarshal_JoinRoomData (JObj [(''Room'', JStr ''lobby'')]) = Inr ''lobby''"
  "ex_Unmarshal_JoinRoomData (JObj [(''room'', JNum 3)]) =
     Inl ''json: cannot unmarshal number into Go struct field JoinRoomData.room of type string''"
  "ex_Unmarshal_JoinRoomData (JArr []) =
     Inl ''json: cannot unmarshal array into Go value of type main.JoinRoomData''"
  by (simp_all add: ex_Unmarshal_JoinRoomData_def json_kind_def to_lower_def)

lemma send_or_shed_open:
  assumes "heap s c = Some m" and "\<not> closed (send m)"
  shows "send_or_shed c msg s =
           Inr (s\<lparr>heap := (heap s)(c \<mapsto> emitted msg m),
                  clients := (if length (buf (send m)) < cap (send m) then clients s
                              else AList.delete (ID m) (clients s))\<rparr>)"
  using assms by (simp add: send_or_shed_def try_send_def close_chan_def emitted_def)

section \<open>Emit\<close>

text \<open>
  On a queue that has not been closed \<^verbatim>\<open>Emit\<close> returns at once: with free space in the
  queue the message is appended and nothing else changes, the registry included; with a
  full queue the queue is closed and the Session's ID is deleted from the registry by the
  call itself. The channels of the hub loop are not written.
\<close>

lemma Emit_open_queue:
  assumes "heap s c = Some cl" and "\<not> closed (send cl)"
  shows "Emit c event data s =
           Inr (if length (buf (send cl)) < cap (send cl)
                then s\<lparr>heap := (heap s)(c \<mapsto>
                        cl\<lparr>send := (send cl)\<lparr>buf := buf (send cl) @ [\<lparr>Event = event, Data = data\<rparr>]\<rparr>\<rparr>)\<rparr>
                else s\<lparr>heap := (heap s)(c \<mapsto> cl\<lparr>send := (send cl)\<lparr>closed := True\<rparr>\<rparr>),
                       clients := AList.delete (ID cl) (clients s)\<rparr>)"
  using assms by (simp add: Emit_def send_or_shed_open emitted_def)

text \<open>On a queue that was closed, by a shed or by a deregistration, \<^verbatim>\<open>Emit\<close> panics, full or not.\<close>

lemma Emit_on_closed_queue:
  "heap s c = Some cl \<Longrightarrow> closed (send cl) \<Longrightarrow> Emit c event data s = Inl SendOnClosedChannel"
  by (simp add: Emit_def send_or_shed_def try_send_def)

text \<open>
  Claim C5 has \<^verbatim>\<open>Emit\<close> shed a Session whenever its queue is full. D's queue holds 256
  messages. The first \<^verbatim>\<open>Emit\<close> on D closes the queue and deletes D from the registry, as
  the claim says. At the second \<^verbatim>\<open>Emit\<close> on D the queue is as full as before, and closed:
  the send case of the \<^verbatim>\<open>select\<close> panics, and the program ends.
\<close>

theorem Emit_twice_on_full_queue:
  "Emit 3 ''ping'' (JObj [(''n'', JNum 1)]) ex_lobby = Inr ex_shed \<and>
   Emit 3 ''ping'' (JObj [(''n'', JNum 1)]) ex_shed = Inl SendOnClosedChannel"
  by (simp add: Emit_def send_or_shed_def try_send_def close_chan_def ex_shed_def ex_lobby_def
        ex_stalled_def ex_client_def make_chan_def fun_upd_twist)

section \<open>BroadcastToRoom\<close>

text \<open>
  The loop over the members, when the member pointers are pairwise distinct and every
  member that is not skipped has an open queue: each such member is left as \<^verbatim>\<open>Emit\<close> leaves
  it, the IDs of those whose queue was full are gone from the registry, and nothing else
  has changed.
\<close>

lemma room_loop_effect:
  assumes "distinct (map snd members)"
    and "\<forall>(k, a) \<in> set members. \<exists>m. heap s a = Some m \<and> (ID m \<noteq> cid \<longrightarrow> \<not> closed (send m))"
  shows "\<exists>H C. room_loop cid event data members s = Inr (s\<lparr>heap := H, clients := C\<rparr>) \<and>
           (\<forall>a. H a = (case heap s a of None \<Rightarrow> None
                        | Some m \<Rightarrow> Some (if a \<in> snd ` set members \<and> ID m \<noteq> cid
                                          then emitted \<lparr>Event = event, Data = data\<rparr> m else m))) \<and>
           (\<forall>k. map_of C k =
                 (if \<exists>a m. a \<in> snd ` set members \<and> heap s a = Some m \<and> ID m \<noteq> cid \<and>
                            \<not> length (buf (send m)) < cap (send m) \<and> ID m = k
                  then None else map_of (clients s) k))"
  using assms
proof (induction members arbitrary: s)
  case Nil
  have "s\<lparr>heap := heap s, clients := clients s\<rparr> = s" by simp
  then show ?case
    by (intro exI[of _ "heap s"] exI[of _ "clients s"]) (auto split: option.splits)
next
  case (Cons p rest)
  obtain k a where p: "p = (k, a)" by (cases p)
  from Cons.prems p obtain m where m: "heap s a = Some m" "ID m \<noteq> cid \<longrightarrow> \<not> closed (send m)"
    by auto
  have a_notin: "a \<notin> snd ` set rest" and drest: "distinct (map snd rest)"
    using Cons.prems(1) p by auto
  let ?msg = "\<lparr>Event = event, Data = data\<rparr>"
  show ?case
  proof (cases "ID m = cid")
    case True
    have pre: "\<forall>(k, a) \<in> set rest. \<exists>m. heap s a = Some m \<and> (ID m \<noteq> cid \<longrightarrow> \<not> closed (send m))"
      using Cons.prems(2) by auto
    from Cons.IH[OF drest pre] obtain H C where
      r: "room_loop cid event data rest s = Inr (s\<lparr>heap := H, clients := C\<rparr>)"
      and H: "\<forall>a. H a = (case heap s a of None \<Rightarrow> None
                        | Some m \<Rightarrow> Some (if a \<in> snd ` set rest \<and> ID m \<noteq> cid
                                          then emitted ?msg m else m))"
      and C: "\<forall>k. map_of C k =
                 (if \<exists>a m. a \<in> snd ` set rest \<and> heap s a = Some m \<and> ID m \<noteq> cid \<and>
                            \<not> length (buf (send m)) < cap (send m) \<and> ID m = k
                  then None else map_of (clients s) k)"
      by blast
    have 1: "room_loop cid event data (p # rest) s = Inr (s\<lparr>heap := H, clients := C\<rparr>)"
      using p m True r by simp
    have 2: "\<forall>b. H b = (case heap s b of None \<Rightarrow> None
                        | Some m \<Rightarrow> Some (if b \<in> snd ` set (p # rest) \<and> ID m \<noteq> cid
                                          then emitted ?msg m else m))"
      using H p m True by (auto split: option.splits)
    have 3: "\<forall>k. map_of C k =
                 (if \<exists>b m. b \<in> snd ` set (p # rest) \<and> heap s b = Some m \<and> ID m \<noteq> cid \<and>
                            \<not> length (buf (send m)) < cap (send m) \<and> ID m = k
                  then None else map_of (clients s) k)"
      using C p m True by auto
    from 1 2 3 show ?thesis by blast
  next
    case False
    define s1 where "s1 = s\<lparr>heap := (heap s)(a \<mapsto> emitted ?msg m),
                  clients := (if length (buf (send m)) < cap (send m) then clients s
                              else AList.delete (ID m) (clients s))\<rparr>"
    have e: "Emit a event data s = Inr s1"
      using m False by (simp add: Emit_def send_or_shed_open s1_def)
    have hs1: "\<And>b. b \<noteq> a \<Longrightarrow> heap s1 b = heap s b" by (simp add: s1_def)
    have pre: "\<forall>(k, a) \<in> set rest. \<exists>m. heap s1 a = Some m \<and> (ID m \<noteq> cid \<longrightarrow> \<not> closed (send m))"
    proof -
      { fix k' b assume kb: "(k', b) \<in> set rest"
        then have "b \<noteq> a" using a_notin by force
        moreover from Cons.prems(2) kb obtain m' where "heap s b = Some m'" "ID m' \<noteq> cid \<longrightarrow> \<not> closed (send m')"
          by auto
        ultimately have "\<exists>m. heap s1 b = Some m \<and> (ID m \<noteq> cid \<longrightarrow> \<not> closed (send m))"
          using hs1 by auto }
      then show ?thesis by auto
    qed
    from Cons.IH[OF drest pre] obtain H C where
      r: "room_loop cid event data rest s1 = Inr (s1\<lparr>heap := H, clients := C\<rparr>)"
      and H: "\<forall>a. H a = (case heap s1 a of None \<Rightarrow> None
                        | Some m \<Rightarrow> Some (if a \<in> snd ` set rest \<and> ID m \<noteq> cid
                                          then emitted ?msg m else m))"
      and C: "\<forall>k. map_of C k =
                 (if \<exists>a m. a \<in> snd ` set rest \<and> heap s1 a = Some m \<and> ID m \<noteq> cid \<and>
                            \<not> length (buf (send m)) < cap (send m) \<and> ID m = k
                  then None else map_of (clients s1) k)"
      by blast
    have s1upd: "s1\<lparr>heap := H, clients := C\<rparr> = s\<lparr>heap := H, clients := C\<rparr>"
      by (simp add: s1_def)
    have 1: "room_loop cid event data (p # rest) s = Inr (s\<lparr>heap := H, clients := C\<rparr>)"
      using p m False e r s1upd by (simp add: and_then_simps)
    have 2: "\<forall>b. H b = (case heap s b of None \<Rightarrow> None
                        | Some m \<Rightarrow> Some (if b \<in> snd ` set (p # rest) \<and> ID m \<noteq> cid
                                          then emitted ?msg m else m))"
    proof
      fix b
      show "H b = (case heap s b of None \<Rightarrow> None
                        | Some m \<Rightarrow> Some (if b \<in> snd ` set (p # rest) \<and> ID m \<noteq> cid
                                          then emitted ?msg m else m))"
      proof (cases "b = a")
        case True
        then show ?thesis using H[rule_format, of a] a_notin m False p by (simp add: s1_def)
      next
        case False
        then show ?thesis using H[rule_format, of b] hs1[of b] p by (simp split: option.splits)
      qed
    qed
    have 3: "\<forall>k. map_of C k =
                 (if \<exists>b m. b \<in> snd ` set (p # rest) \<and> heap s b = Some m \<and> ID m \<noteq> cid \<and>
                            \<not> length (buf (send m)) < cap (send m) \<and> ID m = k
                  then None else map_of (clients s) k)"
    proof
      fix k'
      have rest_eq: "(\<exists>b m. b \<in> snd ` set rest \<and> heap s1 b = Some m \<and> ID m \<noteq> cid \<and>
                            \<not> length (buf (send m)) < cap (send m) \<and> ID m = k')
                 = (\<exists>b m. b \<in> snd ` set rest \<and> heap s b = Some m \<and> ID m \<noteq> cid \<and>
                            \<not> length (buf (send m)) < cap (send m) \<and> ID m = k')"
        using hs1 a_notin by (metis)
      have split: "(\<exists>b m. b \<in> snd ` set (p # rest) \<and> heap s b = Some m \<and> ID m \<noteq> cid \<and>
                            \<not> length (buf (send m)) < cap (send m) \<and> ID m = k')
                 = ((\<not> length (buf (send m)) < cap (send m) \<and> ID m = k') \<or>
                    (\<exists>b m. b \<in> snd ` set rest \<and> heap s b = Some m \<and> ID m \<noteq> cid \<and>
                            \<not> length (buf (send m)) < cap (send m) \<and> ID m = k'))"
        using p m False by auto
      have cl1: "map_of (clients s1) k' =
                   (if \<not> length (buf (send m)) < cap (send m) \<and> ID m = k' then None
                    else map_of (clients s) k')"
        by (auto simp: s1_def delete_conv')
      show "map_of C k' =
                 (if \<exists>b m. b \<in> snd ` set (p # rest) \<and> heap s b = Some m \<and> ID m \<noteq> cid \<and>
                            \<not> length (buf (send m)) < cap (send m) \<and> ID m = k'
                  then None else map_of (clients s) k')"
        unfolding split using C[rule_format, of k'] rest_eq cl1 by auto
    qed
    from 1 2 3 show ?thesis by blast
  qed
qed

text \<open>
  Let \<open>members\<close> be the room index entry of \<open>room\<close> (no entry: no members), each entry
  filed under the ID of the client it points to, as \<^verbatim>\<open>Join\<close> files it. As long as the
  queues of the members other than \<open>c\<close> have not been closed, \<^verbatim>\<open>BroadcastToRoom\<close> called on
  \<open>c\<close> returns: the message is appended to the queue of every member other than \<open>c\<close>
  that has space, and a member whose queue is full is shed instead. \<open>c\<close> itself is
  unchanged, and so is every client that is not a member, one that left the room included.
  The room index is unchanged too: a member that was shed stays in it.
\<close>

lemma BroadcastToRoom_open_queues:
  assumes c: "heap s c = Some cl"
    and lock: "\<not> writer (mu s)"
    and members: "members = (case map_of (srooms s) room of None \<Rightarrow> [] | Some ms \<Rightarrow> ms)"
    and keys: "distinct (map fst members)"
    and wf: "\<forall>(k, a) \<in> set members. \<exists>m. heap s a = Some m \<and> ID m = k \<and> (k = ID cl \<longrightarrow> a = c) \<and>
               (a \<noteq> c \<longrightarrow> \<not> closed (send m))"
  shows "\<exists>s'. BroadcastToRoom c room event data s = Inr s' \<and>
           (\<forall>a m. a \<in> snd ` set members \<longrightarrow> a \<noteq> c \<longrightarrow> heap s a = Some m \<longrightarrow>
              (if length (buf (send m)) < cap (send m)
               then heap s' a = Some (m\<lparr>send := (send m)\<lparr>buf := buf (send m) @ [\<lparr>Event = event, Data = data\<rparr>]\<rparr>\<rparr>)
               else heap s' a = Some (m\<lparr>send := (send m)\<lparr>closed := True\<rparr>\<rparr>) \<and>
                    map_of (clients s') (ID m) = None)) \<and>
           heap s' c = heap s c \<and>
           (\<forall>a. a \<notin> snd ` set members \<longrightarrow> heap s' a = heap s a) \<and>
           srooms s' = srooms s"
proof -
  let ?msg = "\<lparr>Event = event, Data = data\<rparr>"
  have wfD: "\<And>k a. (k, a) \<in> set members \<Longrightarrow>
               \<exists>m. heap s a = Some m \<and> ID m = k \<and> (k = ID cl \<longrightarrow> a = c) \<and> (a \<noteq> c \<longrightarrow> \<not> closed (send m))"
  proof -
    fix k a assume "(k, a) \<in> set members"
    with wf have "case (k, a) of (k, a) \<Rightarrow> \<exists>m. heap s a = Some m \<and> ID m = k \<and> (k = ID cl \<longrightarrow> a = c) \<and> (a \<noteq> c \<longrightarrow> \<not> closed (send m))"
      by (rule bspec)
    then show "\<exists>m. heap s a = Some m \<and> ID m = k \<and> (k = ID cl \<longrightarrow> a = c) \<and> (a \<noteq> c \<longrightarrow> \<not> closed (send m))"
      by simp
  qed
  have dsnd: "distinct (map snd members)"
  proof -
    have "inj_on snd (set members)"
    proof (rule inj_onI)
      fix p q assume pq: "p \<in> set members" "q \<in> set members" "snd p = snd q"
      obtain k a where p: "p = (k, a)" by (cases p)
      obtain k' a' where q: "q = (k', a')" by (cases q)
      from wfD[of k a] wfD[of k' a'] pq p q have "k = k'" by auto
      with pq p q show "p = q" by simp
    qed
    moreover have "distinct members" using keys by (rule distinct_map[THEN iffD1, THEN conjunct1])
    ultimately show ?thesis by (simp add: distinct_map)
  qed
  have pre: "\<forall>(k, a) \<in> set members. \<exists>m. heap s a = Some m \<and> (ID m \<noteq> ID cl \<longrightarrow> \<not> closed (send m))"
  proof -
    { fix k a assume "(k, a) \<in> set members"
      from wfD[OF this] have "\<exists>m. heap s a = Some m \<and> (ID m \<noteq> ID cl \<longrightarrow> \<not> closed (send m))"
        using c by auto }
    then show ?thesis by auto
  qed
  define s1 where "s1 = s\<lparr>mu := (mu s)\<lparr>readers := Suc (readers (mu s))\<rparr>\<rparr>"
  have pre1: "\<forall>(k, a) \<in> set members. \<exists>m. heap s1 a = Some m \<and> (ID m \<noteq> ID cl \<longrightarrow> \<not> closed (send m))"
    using pre by (simp add: s1_def)
  have hs1: "heap s1 = heap s" and cs1: "clients s1 = clients s" by (simp_all add: s1_def)
  from room_loop_effect[OF dsnd pre1, of event data] obtain H1 C1 where
    r1: "room_loop (ID cl) event data members s1 = Inr (s1\<lparr>heap := H1, clients := C1\<rparr>)"
    and H1': "\<forall>a. H1 a = (case heap s1 a of None \<Rightarrow> None
                        | Some m \<Rightarrow> Some (if a \<in> snd ` set members \<and> ID m \<noteq> ID cl
                                          then emitted ?msg m else m))"
    and C1': "\<forall>k. map_of C1 k =
                 (if \<exists>a m. a \<in> snd ` set members \<and> heap s1 a = Some m \<and> ID m \<noteq> ID cl \<and>
                            \<not> length (buf (send m)) < cap (send m) \<and> ID m = k
                  then None else map_of (clients s1) k)"
    by blast
  note H1 = H1'[unfolded hs1] and C1 = C1'[unfolded hs1 cs1]
  have rl: "RLock s = Inr s1" using lock by (simp add: RLock_def s1_def)
  have ru: "RUnlock (s1\<lparr>heap := H1, clients := C1\<rparr>) = Inr (s\<lparr>heap := H1, clients := C1\<rparr>)"
    by (simp add: RUnlock_def s1_def)
  have srooms1: "map_of (srooms s1) room = map_of (srooms s) room" by (simp add: s1_def)
  have res: "BroadcastToRoom c room event data s = Inr (s\<lparr>heap := H1, clients := C1\<rparr>)"
  proof (cases "map_of (srooms s) room")
    case None
    then have "members = []" using members by simp
    with r1 have "s1\<lparr>heap := H1, clients := C1\<rparr> = s1" by simp
    with None show ?thesis
      using c rl ru srooms1 by (simp add: BroadcastToRoom_def and_then_simps)
  next
    case (Some ms)
    then have "members = ms" using members by simp
    with Some show ?thesis
      using c rl ru r1 srooms1 by (simp add: BroadcastToRoom_def and_then_simps)
  qed
  have others: "\<forall>a m. a \<in> snd ` set members \<longrightarrow> a \<noteq> c \<longrightarrow> heap s a = Some m \<longrightarrow> ID m \<noteq> ID cl"
  proof (intro allI impI)
    fix a m assume a: "a \<in> snd ` set members" "a \<noteq> c" "heap s a = Some m"
    then obtain k where "(k, a) \<in> set members" by auto
    from wfD[OF this] a show "ID m \<noteq> ID cl" by auto
  qed
  have self: "H1 c = heap s c"
  proof (cases "c \<in> snd ` set members")
    case True
    then show ?thesis using H1[rule_format, of c] c by simp
  next
    case False
    then show ?thesis using H1[rule_format, of c] c by simp
  qed
  have part1: "\<forall>a m. a \<in> snd ` set members \<longrightarrow> a \<noteq> c \<longrightarrow> heap s a = Some m \<longrightarrow>
              (if length (buf (send m)) < cap (send m)
               then H1 a = Some (m\<lparr>send := (send m)\<lparr>buf := buf (send m) @ [?msg]\<rparr>\<rparr>)
               else H1 a = Some (m\<lparr>send := (send m)\<lparr>closed := True\<rparr>\<rparr>) \<and>
                    map_of C1 (ID m) = None)"
  proof (intro allI impI)
    fix a m assume a: "a \<in> snd ` set members" "a \<noteq> c" "heap s a = Some m"
    then have idm: "ID m \<noteq> ID cl" using others by blast
    have Ha: "H1 a = Some (emitted ?msg m)" using H1[rule_format, of a] a idm by simp
    show "if length (buf (send m)) < cap (send m)
               then H1 a = Some (m\<lparr>send := (send m)\<lparr>buf := buf (send m) @ [?msg]\<rparr>\<rparr>)
               else H1 a = Some (m\<lparr>send := (send m)\<lparr>closed := True\<rparr>\<rparr>) \<and>
                    map_of C1 (ID m) = None"
    proof (cases "length (buf (send m)) < cap (send m)")
      case True
      then show ?thesis using Ha by (simp add: emitted_def)
    next
      case False
      have "\<exists>b m'. b \<in> snd ` set members \<and> heap s b = Some m' \<and> ID m' \<noteq> ID cl \<and>
                            \<not> length (buf (send m')) < cap (send m') \<and> ID m' = ID m"
        using a idm False by blast
      then have "map_of C1 (ID m) = None" using C1[rule_format, of "ID m"] by simp
      then show ?thesis using Ha False by (simp add: emitted_def)
    qed
  qed
  have part3: "\<forall>a. a \<notin> snd ` set members \<longrightarrow> H1 a = heap s a"
    using H1 by (auto split: option.splits)
  show ?thesis
  proof (rule exI[of _ "s\<lparr>heap := H1, clients := C1\<rparr>"])
    show "BroadcastToRoom c room event data s = Inr (s\<lparr>heap := H1, clients := C1\<rparr>) \<and>
           (\<forall>a m. a \<in> snd ` set members \<longrightarrow> a \<noteq> c \<longrightarrow> heap s a = Some m \<longrightarrow>
              (if length (buf (send m)) < cap (send m)
               then heap (s\<lparr>heap := H1, clients := C1\<rparr>) a = Some (m\<lparr>send := (send m)\<lparr>buf := buf (send m) @ [\<lparr>Event = event, Data = data\<rparr>]\<rparr>\<rparr>)
               else heap (s\<lparr>heap := H1, clients := C1\<rparr>) a = Some (m\<lparr>send := (send m)\<lparr>closed := True\<rparr>\<rparr>) \<and>
                    map_of (clients (s\<lparr>heap := H1, clients := C1\<rparr>)) (ID m) = None)) \<and>
           heap (s\<lparr>heap := H1, clients := C1\<rparr>) c = heap s c \<and>
           (\<forall>a. a \<notin> snd ` set members \<longrightarrow> heap (s\<lparr>heap := H1, clients := C1\<rparr>) a = heap s a) \<and>
           srooms (s\<lparr>heap := H1, clients := C1\<rparr>) = srooms s"
      using res part1 self part3 by simp
  qed
qed


text \<open>
  Claim C8 has \<^verbatim>\<open>BroadcastToRoom\<close> enqueue the message to every member of the room other
  than the caller. A, B and D are in the lobby, and D's queue is full. A's first call
  queues \<open>ping\<close> for B and sheds D: D's queue is closed and D is deleted from the
  registry, but the room index keeps it. At A's second call D is still a member, the send
  on its closed queue panics, and the program ends; D was sent neither message.
\<close>

theorem BroadcastToRoom_shed_member_panics:
  "BroadcastToRoom 0 ''lobby'' ''ping'' (JObj [(''n'', JNum 1)]) ex_lobby = Inr ex_lobby_pinged \<and>
   srooms ex_lobby_pinged = [(''lobby'', [(''A'', 0), (''B'', 1), (''D'', 3)])] \<and>
   BroadcastToRoom 0 ''lobby'' ''ping'' (JObj [(''n'', JNum 1)]) ex_lobby_pinged =
     Inl SendOnClosedChannel"
  by (simp add: BroadcastToRoom_def RLock_def RUnlock_def Emit_def send_or_shed_def try_send_def
        close_chan_def and_then_simps ex_lobby_pinged_def ex_lobby_def ex_stalled_def
        ex_client_def make_chan_def ping_def fun_upd_twist)

section \<open>Join and Leave\<close>

lemma Join_result:
  assumes "heap s c = Some cl"
  shows "Join c room s =
     Inr (s\<lparr>heap := (heap s)(c \<mapsto> cl\<lparr>rooms := AList.update room True (rooms cl)\<rparr>),
            srooms := AList.update room
               (AList.update (ID cl) c (case map_of (srooms s) room of None \<Rightarrow> [] | Some m \<Rightarrow> m))
               (srooms s)\<rparr>)"
  using assms by (simp add: Join_def)

lemma leaveRoom_result:
  assumes "heap s c = Some cl" and "lock_free s"
  shows "leaveRoom c room s =
     Inr (s\<lparr>srooms :=
              (case map_of (srooms s) room of
                 None \<Rightarrow> srooms s
               | Some members \<Rightarrow>
                   if AList.delete (ID cl) members = [] then AList.delete room (srooms s)
                   else AList.update room (AList.delete (ID cl) members) (srooms s)),
            heap := (heap s)(c \<mapsto> cl\<lparr>rooms := AList.delete room (rooms cl)\<rparr>)\<rparr>)"
  using assms
  by (cases "map_of (srooms s) room")
     (simp_all add: leaveRoom_def Lock_def Unlock_def lock_free_def and_then_simps Let_def
        mu_restore_writer)

text \<open>\<^verbatim>\<open>Join\<close> keeps the three room invariants, the lock and the set of allocated clients.\<close>

lemma Join_preserves:
  assumes c: "heap s c = Some cl" and u: "unique_ids s" and ag: "rooms_agree s"
    and ne: "no_empty_rooms s"
  shows "\<exists>s'. Join c room s = Inr s' \<and> unique_ids s' \<and> rooms_agree s' \<and> no_empty_rooms s' \<and>
           mu s' = mu s \<and> dom (heap s') = dom (heap s)"
proof -
  let ?ms = "case map_of (srooms s) room of None \<Rightarrow> [] | Some m \<Rightarrow> m"
  define s' where "s' = s\<lparr>heap := (heap s)(c \<mapsto> cl\<lparr>rooms := AList.update room True (rooms cl)\<rparr>),
            srooms := AList.update room (AList.update (ID cl) c ?ms) (srooms s)\<rparr>"
  have res: "Join c room s = Inr s'"
    using Join_result[OF c, of room] by (simp add: s'_def)
  have ids: "\<And>a m. heap s' a = Some m \<Longrightarrow> \<exists>m0. heap s a = Some m0 \<and> ID m0 = ID m"
    using c by (auto simp: s'_def split: if_splits)
  have U: "unique_ids s'"
    unfolding unique_ids_def
  proof (intro allI impI)
    fix a b ca cb assume h: "heap s' a = Some ca" "heap s' b = Some cb" "ID ca = ID cb"
    from ids[OF h(1)] ids[OF h(2)] h(3) u show "a = b" unfolding unique_ids_def by metis
  qed
  have idx: "\<And>r cid. in_index s' r cid =
                 (if r = room then cid = ID cl \<or> in_index s r cid else in_index s r cid)"
    by (auto simp: in_index_def s'_def update_conv' split: option.splits)
  have A: "rooms_agree s'"
    unfolding rooms_agree_def
  proof (intro allI impI)
    fix a m r assume h: "heap s' a = Some m"
    show "in_local m r = in_index s' r (ID m)"
    proof (cases "a = c")
      case True
      then have m: "m = cl\<lparr>rooms := AList.update room True (rooms cl)\<rparr>"
        using h by (simp add: s'_def)
      have "in_local cl r = in_index s r (ID cl)"
        using ag c unfolding rooms_agree_def by blast
      then show ?thesis by (auto simp: idx m in_local_def update_conv')
    next
      case False
      then have hm: "heap s a = Some m" using h by (simp add: s'_def)
      then have "ID m \<noteq> ID cl" using u c False unfolding unique_ids_def by blast
      moreover have "in_local m r = in_index s r (ID m)"
        using ag hm unfolding rooms_agree_def by blast
      ultimately show ?thesis by (simp add: idx)
    qed
  qed
  have N: "no_empty_rooms s'"
    using ne unfolding no_empty_rooms_def by (auto simp: s'_def update_conv' split: if_splits)
  have D: "dom (heap s') = dom (heap s)" using c by (auto simp: s'_def)
  have M: "mu s' = mu s" by (simp add: s'_def)
  show ?thesis
  proof (rule exI[of _ s'])
    show "Join c room s = Inr s' \<and> unique_ids s' \<and> rooms_agree s' \<and> no_empty_rooms s' \<and>
           mu s' = mu s \<and> dom (heap s') = dom (heap s)"
      using res U A N D M by simp
  qed
qed

text \<open>\<^verbatim>\<open>Leave\<close> returns when the lock is free, and keeps the same.\<close>

lemma Leave_preserves:
  assumes c: "heap s c = Some cl" and u: "unique_ids s" and ag: "rooms_agree s"
    and ne: "no_empty_rooms s" and lf: "lock_free s"
  shows "\<exists>s'. Leave c room s = Inr s' \<and> unique_ids s' \<and> rooms_agree s' \<and> no_empty_rooms s' \<and>
           mu s' = mu s \<and> dom (heap s') = dom (heap s)"
proof -
  define idx' where "idx' = (case map_of (srooms s) room of
                 None \<Rightarrow> srooms s
               | Some members \<Rightarrow>
                   if AList.delete (ID cl) members = [] then AList.delete room (srooms s)
                   else AList.update room (AList.delete (ID cl) members) (srooms s))"
  define s' where "s' = s\<lparr>srooms := idx',
                           heap := (heap s)(c \<mapsto> cl\<lparr>rooms := AList.delete room (rooms cl)\<rparr>)\<rparr>"
  have res: "Leave c room s = Inr s'"
    using leaveRoom_result[OF c lf, of room] by (simp add: Leave_def s'_def idx'_def)
  have ids: "\<And>a m. heap s' a = Some m \<Longrightarrow> \<exists>m0. heap s a = Some m0 \<and> ID m0 = ID m"
    using c by (auto simp: s'_def split: if_splits)
  have U: "unique_ids s'"
    unfolding unique_ids_def
  proof (intro allI impI)
    fix a b ca cb assume h: "heap s' a = Some ca" "heap s' b = Some cb" "ID ca = ID cb"
    from ids[OF h(1)] ids[OF h(2)] h(3) u show "a = b" unfolding unique_ids_def by metis
  qed
  have srooms': "srooms s' = idx'" by (simp add: s'_def)
  have idx: "in_index s' r cid =
               (if r = room then cid \<noteq> ID cl \<and> in_index s r cid else in_index s r cid)" for r cid
  proof (cases "map_of (srooms s) room")
    case None
    then show ?thesis by (auto simp: in_index_def srooms' idx'_def)
  next
    case (Some members)
    show ?thesis
    proof (cases "AList.delete (ID cl) members = []")
      case True
      have gone: "cid \<noteq> ID cl \<longrightarrow> map_of members cid = None"
      proof
        assume "cid \<noteq> ID cl"
        then have "map_of members cid = map_of (AList.delete (ID cl) members) cid" by simp
        then show "map_of members cid = None" using True by simp
      qed
      have "in_index s' r cid = (if r = room then False else in_index s r cid)"
        using Some True by (simp add: in_index_def srooms' idx'_def delete_conv')
      moreover have "in_index s room cid = (map_of members cid \<noteq> None)"
        using Some by (simp add: in_index_def)
      ultimately show ?thesis using gone by auto
    next
      case False
      then show ?thesis using Some
        by (auto simp: in_index_def srooms' idx'_def update_conv' delete_conv')
    qed
  qed
  have A: "rooms_agree s'"
    unfolding rooms_agree_def
  proof (intro allI impI)
    fix a m r assume h: "heap s' a = Some m"
    show "in_local m r = in_index s' r (ID m)"
    proof (cases "a = c")
      case True
      then have m: "m = cl\<lparr>rooms := AList.delete room (rooms cl)\<rparr>"
        using h by (simp add: s'_def)
      have "in_local cl r = in_index s r (ID cl)"
        using ag c unfolding rooms_agree_def by blast
      then show ?thesis by (auto simp: idx m in_local_def delete_conv')
    next
      case False
      then have hm: "heap s a = Some m" using h by (simp add: s'_def)
      then have "ID m \<noteq> ID cl" using u c False unfolding unique_ids_def by blast
      moreover have "in_local m r = in_index s r (ID m)"
        using ag hm unfolding rooms_agree_def by blast
      ultimately show ?thesis by (simp add: idx)
    qed
  qed
  have N: "no_empty_rooms s'"
    using ne unfolding no_empty_rooms_def
    by (auto simp: srooms' idx'_def update_conv' delete_conv' split: option.splits if_splits)
  have D: "dom (heap s') = dom (heap s)" using c by (auto simp: s'_def)
  have M: "mu s' = mu s" by (simp add: s'_def)
  show ?thesis
  proof (rule exI[of _ s'])
    show "Leave c room s = Inr s' \<and> unique_ids s' \<and> rooms_agree s' \<and> no_empty_rooms s' \<and>
           mu s' = mu s \<and> dom (heap s') = dom (heap s)"
      using res U A N D M by simp
  qed
qed

lemma apply_ops_preserves:
  assumes "unique_ids s" and "rooms_agree s" and "no_empty_rooms s" and "lock_free s"
    and "op_client ` set ops \<subseteq> dom (heap s)"
  shows "\<exists>s'. apply_ops ops s = Inr s' \<and> unique_ids s' \<and> rooms_agree s' \<and> no_empty_rooms s'"
  using assms
proof (induction ops arbitrary: s)
  case Nil
  then show ?case by simp
next
  case (Cons x xs)
  from Cons.prems(5) obtain cl where cl: "heap s (op_client x) = Some cl" by auto
  have step: "\<exists>s1. apply_op x s = Inr s1 \<and> unique_ids s1 \<and> rooms_agree s1 \<and> no_empty_rooms s1 \<and>
                 mu s1 = mu s \<and> dom (heap s1) = dom (heap s)"
  proof (cases x)
    case (DoJoin c r)
    then show ?thesis
      using Join_preserves[OF _ Cons.prems(1,2,3), of c cl r] cl by simp
  next
    case (DoLeave c r)
    then show ?thesis
      using Leave_preserves[OF _ Cons.prems(1,2,3,4), of c cl r] cl by simp
  qed
  then obtain s1 where s1: "apply_op x s = Inr s1" "unique_ids s1" "rooms_agree s1"
      "no_empty_rooms s1" "mu s1 = mu s" "dom (heap s1) = dom (heap s)"
    by (elim exE conjE)
  have lf1: "lock_free s1" using Cons.prems(4) s1(5) by (simp add: lock_free_def)
  have dom1: "op_client ` set xs \<subseteq> dom (heap s1)" using Cons.prems(5) s1(6) by simp
  from Cons.IH[OF s1(2,3,4) lf1 dom1] obtain s' where
    s': "apply_ops xs s1 = Inr s'" "unique_ids s'" "rooms_agree s'" "no_empty_rooms s'"
    by (elim exE conjE)
  show ?case
  proof (rule exI[of _ s'])
    show "apply_ops (x # xs) s = Inr s' \<and> unique_ids s' \<and> rooms_agree s' \<and> no_empty_rooms s'"
      using s1(1) s' by (simp add: and_then_simps)
  qed
qed

text \<open>A call that returns was made on an allocated client, and \<^verbatim>\<open>Leave\<close> with the lock free.\<close>

lemma Join_returns: "Join c room s = Inr s' \<Longrightarrow> heap s c \<noteq> None"
  by (auto simp: Join_def split: option.splits)

lemma Leave_returns: "Leave c room s = Inr s' \<Longrightarrow> heap s c \<noteq> None \<and> lock_free s"
  by (auto simp: Leave_def leaveRoom_def Lock_def lock_free_def and_then_simps
        split: option.splits if_splits)

lemma apply_op_safe:
  assumes "unique_ids s" and "rooms_agree s" and "no_empty_rooms s" and "apply_op x s = Inr s1"
  shows "unique_ids s1 \<and> rooms_agree s1 \<and> no_empty_rooms s1"
proof (cases x)
  case (DoJoin c r)
  with assms(4) have j: "Join c r s = Inr s1" by simp
  from Join_returns[OF j] obtain cl where cl: "heap s c = Some cl" by auto
  from Join_preserves[OF cl assms(1,2,3), of r] j show ?thesis by auto
next
  case (DoLeave c r)
  with assms(4) have l: "Leave c r s = Inr s1" by simp
  from Leave_returns[OF l] obtain cl where cl: "heap s c = Some cl" and lf: "lock_free s" by auto
  from Leave_preserves[OF cl assms(1,2,3) lf, of r] l show ?thesis by auto
qed

lemma apply_ops_safe:
  assumes "unique_ids s" and "rooms_agree s" and "no_empty_rooms s" and "apply_ops ops s = Inr s'"
  shows "unique_ids s' \<and> rooms_agree s' \<and> no_empty_rooms s'"
  using assms
proof (induction ops arbitrary: s)
  case Nil
  then show ?case by simp
next
  case (Cons x xs)
  from Cons.prems(4) obtain s1 where s1: "apply_op x s = Inr s1" "apply_ops xs s1 = Inr s'"
    by (cases "apply_op x s") (simp_all add: and_then_simps)
  from apply_op_safe[OF Cons.prems(1,2,3) s1(1)]
  have "unique_ids s1" "rooms_agree s1" "no_empty_rooms s1" by simp_all
  from Cons.IH[OF this s1(2)] show ?case .
qed

text \<open>
  Claim C4. Start where client IDs are unique, the clients' room sets and the room index
  agree and no room is empty (a server whose clients have joined nothing, for one). Take
  any sequence of \<^verbatim>\<open>Join\<close> and \<^verbatim>\<open>Leave\<close> calls and any number \<open>n\<close> of its calls. In the state
  after these \<open>n\<close> calls, room \<open>r\<close> is in a client's own set exactly when the client's ID is
  in the room index entry of \<open>r\<close>, and the room index has no entry without members. The
  calls do return when the clients are allocated and \<^verbatim>\<open>Server.mu\<close> is free at the start
  (\<^verbatim>\<open>leaveRoom\<close> takes the write lock, so a \<^verbatim>\<open>Leave\<close> made while the lock is held does not
  return).
\<close>

theorem Join_Leave_agree:
  assumes "unique_ids s" and "rooms_agree s" and "no_empty_rooms s"
  shows "(\<forall>s'. apply_ops (take n ops) s = Inr s' \<longrightarrow> rooms_agree s' \<and> no_empty_rooms s') \<and>
         (lock_free s \<longrightarrow> op_client ` set ops \<subseteq> dom (heap s) \<longrightarrow>
            (\<exists>s'. apply_ops (take n ops) s = Inr s'))"
proof (intro conjI allI impI)
  fix s' assume "apply_ops (take n ops) s = Inr s'"
  from apply_ops_safe[OF assms this] show "rooms_agree s'" and "no_empty_rooms s'" by simp_all
next
  assume lf: "lock_free s" and d: "op_client ` set ops \<subseteq> dom (heap s)"
  have "op_client ` set (take n ops) \<subseteq> dom (heap s)"
    using d set_take_subset[of n ops] by blast
  from apply_ops_preserves[OF assms lf this]
  obtain s' where "apply_ops (take n ops) s = Inr s'" by (elim exE conjE)
  then show "\<exists>s'. apply_ops (take n ops) s = Inr s'" by (rule exI[of _ s'])
qed

theorem Join_Leave_agree_witness:
  "unique_ids ex_two \<and> rooms_agree ex_two \<and> no_empty_rooms ex_two \<and> lock_free ex_two \<and>
   apply_ops (take 3 [DoJoin 0 ''lobby'', DoJoin 1 ''lobby'', DoLeave 0 ''lobby'',
                      DoLeave 1 ''lobby'']) ex_two =
     Inr (ex_two\<lparr>heap := [0 \<mapsto> ex_client ''A'',
                          1 \<mapsto> (ex_client ''B'')\<lparr>rooms := [(''lobby'', True)]\<rparr>],
                  srooms := [(''lobby'', [(''B'', 1)])]\<rparr>) \<and>
   rooms_agree (ex_two\<lparr>heap := [0 \<mapsto> ex_client ''A'',
                                 1 \<mapsto> (ex_client ''B'')\<lparr>rooms := [(''lobby'', True)]\<rparr>],
                         srooms := [(''lobby'', [(''B'', 1)])]\<rparr>) \<and>
   no_empty_rooms (ex_two\<lparr>heap := [0 \<mapsto> ex_client ''A'',
                                    1 \<mapsto> (ex_client ''B'')\<lparr>rooms := [(''lobby'', True)]\<rparr>],
                            srooms := [(''lobby'', [(''B'', 1)])]\<rparr>)"
proof -
  let ?ops = "[DoJoin 0 ''lobby'', DoJoin 1 ''lobby'', DoLeave 0 ''lobby'', DoLeave 1 ''lobby'']"
  let ?s' = "ex_two\<lparr>heap := [0 \<mapsto> ex_client ''A'',
                             1 \<mapsto> (ex_client ''B'')\<lparr>rooms := [(''lobby'', True)]\<rparr>],
                     srooms := [(''lobby'', [(''B'', 1)])]\<rparr>"
  have u: "unique_ids ex_two"
    by (auto simp: unique_ids_def ex_two_def ex_client_def split: if_splits)
  have a: "rooms_agree ex_two"
    by (auto simp: rooms_agree_def in_local_def in_index_def ex_two_def ex_client_def
          split: if_splits)
  have n: "no_empty_rooms ex_two" by (simp add: no_empty_rooms_def ex_two_def)
  have l: "lock_free ex_two" by (simp add: lock_free_def ex_two_def)
  have run: "apply_ops (take 3 ?ops) ex_two = Inr ?s'"
    by (simp add: Join_def Leave_def leaveRoom_def Lock_def Unlock_def and_then_simps Let_def
          ex_two_def ex_client_def fun_upd_twist)
  from Join_Leave_agree[OF u a n, of 3 ?ops, THEN conjunct1, rule_format, OF run]
  have "rooms_agree ?s'" and "no_empty_rooms ?s'" by simp_all
  then show ?thesis using u a n l run by simp
qed

text \<open>Inside a handler the inbound loop holds the read lock, and \<^verbatim>\<open>Leave\<close> does not return.\<close>

lemma Leave_blocks_under_read_lock:
  "0 < readers (mu s) \<Longrightarrow> \<exists>s'. Leave c room s = Inl (Blocked s')"
  by (simp add: Leave_def leaveRoom_def Lock_def and_then_simps)

section \<open>The inbound loop: middleware and dispatch\<close>

lemma run_middleware_append:
  "run_middleware (xs @ ys) c msg s =
     and_then (run_middleware xs c msg s)
       (\<lambda>(ok, s1). if ok then run_middleware ys c msg s1 else Inr (False, s1))"
  by (induction xs arbitrary: s) (auto simp: and_then_simps split: sum.splits)

lemma Handle_decoded:
  "Handle marshal unmarshal th client data s =
     (case decoded marshal unmarshal data of
        Inl err \<Rightarrow> Inr (Some err, s)
      | Inr payload \<Rightarrow> and_then (handler th client payload s) (\<lambda>s'. Inr (None, s')))"
  by (simp add: Handle_def decoded_def split: sum.splits)

lemma OnTyped_registers:
  assumes "lock_free s"
  shows "\<exists>d'. OnTyped marshal unmarshal ev h s d = Inr d' \<and> middleware d' = middleware d \<and>
            handlers d' ev = Some (Handle marshal unmarshal \<lparr>handler = h\<rparr>)"
  using assms by (simp add: OnTyped_def Lock_def lock_free_def and_then_simps)

text \<open>
  Claim C6. The middleware loop runs the predicates in list order, all of \<open>xs\<close> before any
  of \<open>ys\<close> (and \<^verbatim>\<open>Use\<close> appends, so list order is registration order). When the predicates
  \<open>pre\<close> registered before \<open>blocker\<close> all return true and \<open>blocker\<close> returns false, the loop
  goes on to the next frame from the state \<open>s2\<close> that \<open>blocker\<close> left: whatever the later
  predicates \<open>post\<close> and the handler table are, none of them has run, no line is logged and
  no queue is written. When all predicates return true, the message is dispatched.
\<close>

theorem middleware_chain:
  "(\<forall>xs ys. run_middleware (xs @ ys) c msg s =
       and_then (run_middleware xs c msg s)
         (\<lambda>(ok, s1). if ok then run_middleware ys c msg s1 else Inr (False, s1))) \<and>
   middleware (Use mw d) = middleware d @ [mw] \<and>
   (\<forall>pre blocker post s1 s2.
       middleware d = pre @ blocker # post \<longrightarrow>
       run_middleware pre c msg s = Inr (True, s1) \<longrightarrow>
       blocker c msg s1 = Inr (False, s2) \<longrightarrow>
       readPump d c (Frame msg # frames) s = readPump d c frames s2) \<and>
   (\<forall>s1. run_middleware (middleware d) c msg s = Inr (True, s1) \<longrightarrow>
       readPump d c (Frame msg # frames) s = and_then (dispatch d c msg s1) (readPump d c frames))"
  by (simp add: run_middleware_append and_then_simps Use_def)

theorem middleware_chain_witness:
  "middleware ex_guarded = [ex_mw_log] @ ex_mw_block # [ex_mw_late] \<and>
   run_middleware [ex_mw_log] 0 ex_join_lobby ex_two =
     Inr (True, log_line ''sent event: join'' ex_two) \<and>
   ex_mw_block 0 ex_join_lobby (log_line ''sent event: join'' ex_two) =
     Inr (False, log_line ''sent event: join'' ex_two) \<and>
   readPump ex_guarded 0 [Frame ex_join_lobby] ex_two =
     Inr (Reading, log_line ''sent event: join'' ex_two)"
proof -
  have m: "middleware ex_guarded = [ex_mw_log] @ ex_mw_block # [ex_mw_late]"
    by (simp add: ex_guarded_def)
  have p: "run_middleware [ex_mw_log] 0 ex_join_lobby ex_two =
             Inr (True, log_line ''sent event: join'' ex_two)"
    by (simp add: ex_mw_log_def ex_join_lobby_def)
  have b: "ex_mw_block 0 ex_join_lobby (log_line ''sent event: join'' ex_two) =
             Inr (False, log_line ''sent event: join'' ex_two)"
    by (simp add: ex_mw_block_def)
  from middleware_chain[of 0 ex_join_lobby ex_two _ ex_guarded "[]"]
  have "readPump ex_guarded 0 [Frame ex_join_lobby] ex_two =
          readPump ex_guarded 0 [] (log_line ''sent event: join'' ex_two)"
    using m p b by blast
  then show ?thesis using m p b by simp
qed

text \<open>
  An event registered with \<^verbatim>\<open>OnTyped\<close> has the entry \<^verbatim>\<open>Handle\<close> of its typed handler \<open>h\<close>.
  When the payload of a message that passed the middleware does not decode (\<^verbatim>\<open>Marshal\<close> or
  \<^verbatim>\<open>Unmarshal\<close> returns an error \<open>e\<close>), the loop logs the error and goes on to the next
  frame: \<open>h\<close> has not run (the state does not depend on it), the registry, the queues and
  the \<^verbatim>\<open>unregister\<close> channel are as the middleware left them, and the pump is still
  reading. But the read lock taken for the dispatch is still held: \<^verbatim>\<open>continue\<close> skips
  \<^verbatim>\<open>RUnlock\<close>.
\<close>

lemma typed_decode_failure:
  assumes "handlers d ev = Some (Handle marshal unmarshal \<lparr>handler = h\<rparr>)"
    and "decoded marshal unmarshal data = Inl e"
    and "run_middleware (middleware d) c \<lparr>Event = ev, Data = data\<rparr> s = Inr (True, s1)"
    and "\<not> writer (mu s1)"
  shows "readPump d c (Frame \<lparr>Event = ev, Data = data\<rparr> # frames) s =
           readPump d c frames
             (log_line (''Error handling event '' @ ev @ '': '' @ e)
                (s1\<lparr>mu := (mu s1)\<lparr>readers := Suc (readers (mu s1))\<rparr>\<rparr>))"
  using assms by (simp add: dispatch_def RLock_def Handle_decoded and_then_simps)

lemma typed_decode_failure_example:
  "handlers ex_app ''join'' = Some (Handle ex_Marshal ex_Unmarshal_JoinRoomData \<lparr>handler = ex_join\<rparr>) \<and>
   decoded ex_Marshal ex_Unmarshal_JoinRoomData (JStr ''lobby'') =
     Inl ''json: cannot unmarshal string into Go value of type main.JoinRoomData'' \<and>
   readPump ex_app 0 [Frame ex_join_bad, Frame ex_join_lobby] ex_two =
     Inr (Reading,
          ex_two\<lparr>heap := [0 \<mapsto> ex_A_joined, 1 \<mapsto> ex_client ''B''],
                  srooms := [(''lobby'', [(''A'', 0)])],
                  mu := \<lparr>readers = 1, writer = False\<rparr>,
                  logs := logs ex_two @
                    [''sent event: join'',
                     ''Error handling event join: json: cannot unmarshal string into Go value of type main.JoinRoomData'',
                     ''sent event: join'']\<rparr>)"
proof -
  let ?e = "''json: cannot unmarshal string into Go value of type main.JoinRoomData''"
  have h: "handlers ex_app ''join'' =
             Some (Handle ex_Marshal ex_Unmarshal_JoinRoomData \<lparr>handler = ex_join\<rparr>)"
    by (simp add: ex_app_def)
  have e: "decoded ex_Marshal ex_Unmarshal_JoinRoomData (JStr ''lobby'') = Inl ?e"
    by (simp add: decoded_def ex_Marshal_def ex_Unmarshal_JoinRoomData_def json_kind_def)
  have m: "run_middleware (middleware ex_app) 0 \<lparr>Event = ''join'', Data = JStr ''lobby''\<rparr> ex_two =
             Inr (True, log_line ''sent event: join'' ex_two)"
    by (simp add: ex_app_def ex_mw_log_def)
  have w: "\<not> writer (mu (log_line ''sent event: join'' ex_two))"
    by (simp add: log_line_def ex_two_def)
  have rest: "readPump ex_app 0 [Frame ex_join_lobby]
                (log_line (''Error handling event '' @ ''join'' @ '': '' @ ?e)
                   ((log_line ''sent event: join'' ex_two)
                      \<lparr>mu := (mu (log_line ''sent event: join'' ex_two))
                         \<lparr>readers := Suc (readers (mu (log_line ''sent event: join'' ex_two)))\<rparr>\<rparr>)) =
     Inr (Reading,
          ex_two\<lparr>heap := [0 \<mapsto> ex_A_joined, 1 \<mapsto> ex_client ''B''],
                  srooms := [(''lobby'', [(''A'', 0)])],
                  mu := \<lparr>readers = 1, writer = False\<rparr>,
                  logs := logs ex_two @
                    [''sent event: join'', ''Error handling event join: '' @ ?e,
                     ''sent event: join'']\<rparr>)"
    by (simp add: ex_app_def ex_mw_log_def ex_join_lobby_def dispatch_def RLock_def RUnlock_def
          Handle_def ex_Marshal_def ex_Unmarshal_JoinRoomData_def json_kind_def to_lower_def ex_join_def Join_def Emit_def
          send_or_shed_def try_send_def make_chan_def log_line_def and_then_simps Let_def
          ex_two_def ex_client_def ex_A_joined_def fun_upd_twist)
  from typed_decode_failure[OF h e m w, of "[Frame ex_join_lobby]"] rest
  have "readPump ex_app 0 [Frame ex_join_bad, Frame ex_join_lobby] ex_two =
     Inr (Reading,
          ex_two\<lparr>heap := [0 \<mapsto> ex_A_joined, 1 \<mapsto> ex_client ''B''],
                  srooms := [(''lobby'', [(''A'', 0)])],
                  mu := \<lparr>readers = 1, writer = False\<rparr>,
                  logs := logs ex_two @
                    [''sent event: join'', ''Error handling event join: '' @ ?e,
                     ''sent event: join'']\<rparr>)"
    by (simp add: ex_join_bad_def)
  then show ?thesis using h e by simp
qed

text \<open>
  Claim C7 says that after such a failure the Session goes on to process its next
  message. The code does log the error, drop the message and keep the Session registered,
  but the read lock it leaves behind stops the server. A sends a \<^verbatim>\<open>join\<close> whose payload
  is no JoinRoomData; a client C connects, and the hub, registering it, waits for the
  write lock for good; A sends a well-formed \<^verbatim>\<open>join\<close>, and its inbound loop, past the
  middleware, waits for the read lock behind the hub. The \<^verbatim>\<open>join\<close> is never handled.
\<close>

theorem handler_error_leaks_read_lock:
  "readPump ex_app 0 [Frame ex_join_bad] ex_two = Inr (Reading, ex_leaked) \<and>
   run ex_app [RecvRegister] (handleWebSocket True None 2 ''C'' ex_leaked) = Inl (Blocked ex_stuck) \<and>
   readPump ex_app 0 [Frame ex_join_lobby] ex_stuck =
     Inl (Blocked (log_line ''sent event: join'' ex_stuck))"
  by (simp add: ex_app_def ex_mw_log_def ex_join_bad_def ex_join_lobby_def dispatch_def RLock_def
        Handle_def ex_Marshal_def ex_Unmarshal_JoinRoomData_def json_kind_def to_lower_def handleWebSocket_def
        run_register_def Lock_def log_line_def and_then_simps ex_leaked_def ex_stuck_def
        ex_two_def ex_client_def fun_upd_twist)

text \<open>
  Claim C10. A message that passed the middleware and whose event has no entry in the
  handler table changes nothing: the loop takes the read lock, finds no handler, releases
  the lock and goes on to the next frame from the state the middleware left. No handler
  has run, nothing is logged and no queue is written.
\<close>

theorem unhandled_event_ignored:
  assumes "handlers d (Event msg) = None"
    and "run_middleware (middleware d) c msg s = Inr (True, s1)"
    and "\<not> writer (mu s1)"
  shows "readPump d c (Frame msg # frames) s = readPump d c frames s1"
  using assms by (simp add: dispatch_def RLock_def RUnlock_def and_then_simps)

theorem unhandled_event_ignored_witness:
  "handlers ex_app (Event ex_unknown) = None \<and>
   run_middleware (middleware ex_app) 0 ex_unknown ex_two =
     Inr (True, log_line ''sent event: dance'' ex_two) \<and>
   readPump ex_app 0 [Frame ex_unknown, Frame ex_join_lobby] ex_two =
     Inr (Reading,
          ex_two\<lparr>heap := [0 \<mapsto> ex_A_joined, 1 \<mapsto> ex_client ''B''],
                  srooms := [(''lobby'', [(''A'', 0)])],
                  logs := logs ex_two @ [''sent event: dance'', ''sent event: join'']\<rparr>)"
proof -
  have h: "handlers ex_app (Event ex_unknown) = None"
    by (simp add: ex_app_def ex_unknown_def)
  have m: "run_middleware (middleware ex_app) 0 ex_unknown ex_two =
             Inr (True, log_line ''sent event: dance'' ex_two)"
    by (simp add: ex_app_def ex_mw_log_def ex_unknown_def)
  have w: "\<not> writer (mu (log_line ''sent event: dance'' ex_two))"
    by (simp add: log_line_def ex_two_def)
  have rest: "readPump ex_app 0 [Frame ex_join_lobby] (log_line ''sent event: dance'' ex_two) =
     Inr (Reading,
          ex_two\<lparr>heap := [0 \<mapsto> ex_A_joined, 1 \<mapsto> ex_client ''B''],
                  srooms := [(''lobby'', [(''A'', 0)])],
                  logs := logs ex_two @ [''sent event: dance'', ''sent event: join'']\<rparr>)"
    by (simp add: ex_app_def ex_mw_log_def ex_join_lobby_def dispatch_def RLock_def RUnlock_def
          Handle_def ex_Marshal_def ex_Unmarshal_JoinRoomData_def json_kind_def to_lower_def ex_join_def Join_def Emit_def
          send_or_shed_def try_send_def make_chan_def log_line_def and_then_simps Let_def
          ex_two_def ex_client_def ex_A_joined_def fun_upd_twist)
  from unhandled_event_ignored[OF h m w, of "[Frame ex_join_lobby]"] rest h m
  show ?thesis by simp
qed

section \<open>The inbound loop: read errors\<close>

text \<open>
  Claim C2 as stated fails on \<^verbatim>\<open>client.go\<close>. A frame that does not decode is followed by a
  well-formed \<^verbatim>\<open>join\<close>: \<^verbatim>\<open>readPump\<close> logs nothing, leaves the loop without reading the
  second frame and sends the Session on \<^verbatim>\<open>unregister\<close>; the hub receives it, removes the
  Session from the registry and closes its queue.
\<close>

theorem decode_error_ends_session:
  "readPump ex_app 0 [OtherError ''invalid character'', Frame ex_join_lobby] ex_two =
     Inl (Sending (ex_two\<lparr>unregister := [0]\<rparr>)) \<and>
   run ex_app [RecvUnregister] (ex_two\<lparr>unregister := [0]\<rparr>) = Inr ex_gone"
  by (simp add: readPump_deferred_def IsUnexpectedCloseError_def run_unregister_def Lock_def
        Unlock_def close_chan_def fire_def Handle_def ex_Marshal_def ex_Unmarshal_any_def
        ex_bye_def log_line_def and_then_simps ex_app_def ex_gone_def ex_two_def ex_client_def
        make_chan_def fun_upd_twist)

text \<open>
  Claim C2, amended. In \<^verbatim>\<open>client.go\<close> a read error that is no close error (a frame that
  does not decode is one) ends the inbound loop: nothing is logged, no further frame is
  read, and the deferred teardown sends the Session on \<^verbatim>\<open>unregister\<close>, where it waits with
  the stream still open. When the hub receives the Session, with \<^verbatim>\<open>Server.mu\<close> free, the
  Session registered, in no room and its queue open, it deletes the Session from the
  registry, closes its queue, logs the disconnect and runs the \<^verbatim>\<open>disconnect\<close> handler;
  the teardown, once the Session has been received, closes the stream. The \<^verbatim>\<open>readPump\<close> of
  \<^verbatim>\<open>test/main.go\<close> logs the error and goes on to the next frame with the state otherwise
  unchanged.
\<close>

theorem readPump_decode_error:
  "readPump d c (OtherError txt # frames) s =
     Inl (Sending (s\<lparr>unregister := unregister s @ [c]\<rparr>)) \<and>
   readPump_deferred_close c (s\<lparr>unregister := unregister s @ [c]\<rparr>) =
     Inl (Sending (s\<lparr>unregister := unregister s @ [c]\<rparr>)) \<and>
   (heap s c = Some cl \<longrightarrow> lock_free s \<longrightarrow> unregister s = [] \<longrightarrow>
    map_of (clients s) (ID cl) \<noteq> None \<longrightarrow> \<not> closed (send cl) \<longrightarrow> rooms cl = [] \<longrightarrow>
      run d [RecvUnregister] (s\<lparr>unregister := unregister s @ [c]\<rparr>) =
        fire d ''disconnect'' c
          (log_line (''Client '' @ ID cl @ '' disconnected'')
             (s\<lparr>clients := AList.delete (ID cl) (clients s),
                heap := (heap s)(c \<mapsto> cl\<lparr>send := (send cl)\<lparr>closed := True\<rparr>\<rparr>)\<rparr>))) \<and>
   (c \<notin> set (unregister s') \<longrightarrow> heap s' c = Some cl' \<longrightarrow>
      readPump_deferred_close c s' =
        Inr (TornDown, s'\<lparr>heap := (heap s')(c \<mapsto> cl'\<lparr>conn := ConnClosed\<rparr>)\<rparr>)) \<and>
   readPump_variant d c n (OtherError txt # frames) s =
     readPump_variant d c n frames (log_line (''WebSocket read error: '' @ txt) s)"
proof (intro conjI impI)
  show "readPump d c (OtherError txt # frames) s =
          Inl (Sending (s\<lparr>unregister := unregister s @ [c]\<rparr>))"
    by (simp add: readPump_deferred_def IsUnexpectedCloseError_def)
  show "readPump_deferred_close c (s\<lparr>unregister := unregister s @ [c]\<rparr>) =
          Inl (Sending (s\<lparr>unregister := unregister s @ [c]\<rparr>))"
    by (simp add: readPump_deferred_close_def)
  show "readPump_variant d c n (OtherError txt # frames) s =
          readPump_variant d c n frames (log_line (''WebSocket read error: '' @ txt) s)"
    by simp
next
  assume "c \<notin> set (unregister s')" and "heap s' c = Some cl'"
  then show "readPump_deferred_close c s' =
               Inr (TornDown, s'\<lparr>heap := (heap s')(c \<mapsto> cl'\<lparr>conn := ConnClosed\<rparr>)\<rparr>)"
    by (simp add: readPump_deferred_close_def)
next
  assume cl: "heap s c = Some cl" and free: "lock_free s" and idle: "unregister s = []"
    and reg: "map_of (clients s) (ID cl) \<noteq> None" and opn: "\<not> closed (send cl)"
    and nr: "rooms cl = []"
  have popped: "s\<lparr>unregister := []\<rparr> = s" using idle by (cases s) simp
  have "run d [RecvUnregister] (s\<lparr>unregister := unregister s @ [c]\<rparr>) =
          run_unregister d c (s\<lparr>unregister := []\<rparr>)"
    using idle by (simp add: and_then_def split: sum.splits)
  also have "\<dots> = run_unregister d c s" by (simp only: popped)
  also have "\<dots> = fire d ''disconnect'' c
          (log_line (''Client '' @ ID cl @ '' disconnected'')
             (s\<lparr>clients := AList.delete (ID cl) (clients s),
                heap := (heap s)(c \<mapsto> cl\<lparr>send := (send cl)\<lparr>closed := True\<rparr>\<rparr>)\<rparr>))"
  proof -
    have muw: "(mu s)\<lparr>writer := False\<rparr> = mu s" using free by (simp add: lock_free_def)
    show ?thesis
      using cl free reg opn nr
      by (auto simp: run_unregister_def Lock_def Unlock_def lock_free_def close_chan_def
            and_then_simps log_line_def muw)
  qed
  finally show "run d [RecvUnregister] (s\<lparr>unregister := unregister s @ [c]\<rparr>) =
        fire d ''disconnect'' c
          (log_line (''Client '' @ ID cl @ '' disconnected'')
             (s\<lparr>clients := AList.delete (ID cl) (clients s),
                heap := (heap s)(c \<mapsto> cl\<lparr>send := (send cl)\<lparr>closed := True\<rparr>\<rparr>)\<rparr>))" .
qed

theorem readPump_decode_error_witness:
  "heap ex_two 0 = Some (ex_client ''A'') \<and> lock_free ex_two \<and> unregister ex_two = [] \<and>
   map_of (clients ex_two) ''A'' \<noteq> None \<and> \<not> closed (send (ex_client ''A'')) \<and>
   rooms (ex_client ''A'') = [] \<and>
   readPump ex_app 0 [OtherError ''invalid character'', Frame ex_join_lobby] ex_two =
     Inl (Sending (ex_two\<lparr>unregister := [0]\<rparr>)) \<and>
   readPump_deferred_close 0 (ex_two\<lparr>unregister := [0]\<rparr>) =
     Inl (Sending (ex_two\<lparr>unregister := [0]\<rparr>)) \<and>
   run ex_app [RecvUnregister] (ex_two\<lparr>unregister := [0]\<rparr>) = Inr ex_gone \<and>
   readPump_deferred_close 0 ex_gone =
     Inr (TornDown,
          ex_gone\<lparr>heap := [0 \<mapsto> (ex_client ''A'')\<lparr>conn := ConnClosed,
                                                     send := (make_chan 256)\<lparr>closed := True\<rparr>\<rparr>,
                           1 \<mapsto> ex_client ''B'']\<rparr>) \<and>
   readPump_variant ex_app 0 0 [OtherError ''invalid character'', Frame ex_join_lobby] ex_two =
     Inr (Reading,
          ex_two\<lparr>heap := [0 \<mapsto> ex_A_joined, 1 \<mapsto> ex_client ''B''],
                  srooms := [(''lobby'', [(''A'', 0)])],
                  logs := logs ex_two @
                    [''WebSocket read error: invalid character'', ''sent event: join'']\<rparr>)"
proof -
  let ?A = "ex_client ''A''"
  let ?gone = "(ex_client ''A'')\<lparr>send := (make_chan 256)\<lparr>closed := True\<rparr>\<rparr>"
  note inst = readPump_decode_error[of ex_app 0 "''invalid character''" "[Frame ex_join_lobby]"
      ex_two ?A ex_gone ?gone 0]
  have a: "heap ex_two 0 = Some ?A" by (simp add: ex_two_def)
  have l: "lock_free ex_two" by (simp add: lock_free_def ex_two_def)
  have i: "unregister ex_two = []" by (simp add: ex_two_def)
  have r: "map_of (clients ex_two) (ID ?A) \<noteq> None" by (simp add: ex_two_def ex_client_def)
  have o: "\<not> closed (send ?A)" by (simp add: ex_client_def make_chan_def)
  have n: "rooms ?A = []" by (simp add: ex_client_def)
  have off: "ex_two\<lparr>unregister := unregister ex_two @ [0]\<rparr> = ex_two\<lparr>unregister := [0]\<rparr>"
    using i by simp
  have g: "0 \<notin> set (unregister ex_gone)" by (simp add: ex_gone_def ex_two_def)
  have hg: "heap ex_gone 0 = Some ?gone" by (simp add: ex_gone_def)
  have 1: "readPump ex_app 0 [OtherError ''invalid character'', Frame ex_join_lobby] ex_two =
             Inl (Sending (ex_two\<lparr>unregister := [0]\<rparr>))"
    using inst[THEN conjunct1] off by simp
  have 2: "readPump_deferred_close 0 (ex_two\<lparr>unregister := [0]\<rparr>) =
             Inl (Sending (ex_two\<lparr>unregister := [0]\<rparr>))"
    using inst[THEN conjunct2, THEN conjunct1] off by simp
  have "run ex_app [RecvUnregister] (ex_two\<lparr>unregister := unregister ex_two @ [0]\<rparr>) =
          fire ex_app ''disconnect'' 0
            (log_line (''Client '' @ ID ?A @ '' disconnected'')
               (ex_two\<lparr>clients := AList.delete (ID ?A) (clients ex_two),
                  heap := (heap ex_two)(0 \<mapsto> ?A\<lparr>send := (send ?A)\<lparr>closed := True\<rparr>\<rparr>)\<rparr>))"
    using inst[THEN conjunct2, THEN conjunct2, THEN conjunct1, rule_format, OF a l i r o n] .
  then have 3: "run ex_app [RecvUnregister] (ex_two\<lparr>unregister := [0]\<rparr>) = Inr ex_gone"
    unfolding off
    by (simp add: fire_def Handle_def ex_Marshal_def ex_Unmarshal_any_def ex_bye_def log_line_def
          and_then_simps ex_app_def ex_gone_def ex_two_def ex_client_def make_chan_def
          fun_upd_twist)
  have 4: "readPump_deferred_close 0 ex_gone =
             Inr (TornDown,
                  ex_gone\<lparr>heap := [0 \<mapsto> (ex_client ''A'')\<lparr>conn := ConnClosed,
                                                     send := (make_chan 256)\<lparr>closed := True\<rparr>\<rparr>,
                                   1 \<mapsto> ex_client ''B'']\<rparr>)"
    using inst[THEN conjunct2, THEN conjunct2, THEN conjunct2, THEN conjunct1, rule_format, OF g hg]
    by (simp add: ex_gone_def ex_two_def ex_client_def make_chan_def fun_upd_twist)
  have rest: "readPump_variant ex_app 0 0 [Frame ex_join_lobby]
                (log_line (''WebSocket read error: '' @ ''invalid character'') ex_two) =
     Inr (Reading,
          ex_two\<lparr>heap := [0 \<mapsto> ex_A_joined, 1 \<mapsto> ex_client ''B''],
                  srooms := [(''lobby'', [(''A'', 0)])],
                  logs := logs ex_two @
                    [''WebSocket read error: invalid character'', ''sent event: join'']\<rparr>)"
    by (simp add: ex_app_def ex_mw_log_def ex_join_lobby_def dispatch_def RLock_def RUnlock_def
          Handle_def ex_Marshal_def ex_Unmarshal_JoinRoomData_def json_kind_def to_lower_def
          ex_join_def Join_def Emit_def
          send_or_shed_def try_send_def make_chan_def log_line_def and_then_simps Let_def
          ex_two_def ex_client_def ex_A_joined_def fun_upd_twist)
  have 5: "readPump_variant ex_app 0 0 [OtherError ''invalid character'', Frame ex_join_lobby] ex_two =
     Inr (Reading,
          ex_two\<lparr>heap := [0 \<mapsto> ex_A_joined, 1 \<mapsto> ex_client ''B''],
                  srooms := [(''lobby'', [(''A'', 0)])],
                  logs := logs ex_two @
                    [''WebSocket read error: invalid character'', ''sent event: join'']\<rparr>)"
    using inst[THEN conjunct2, THEN conjunct2, THEN conjunct2, THEN conjunct2] rest by simp
  have r': "map_of (clients ex_two) ''A'' \<noteq> None" by (simp add: ex_two_def)
  from a l i r' o n 1 2 3 4 5 show ?thesis by simp
qed

section \<open>The hub loop: deregistration\<close>

text \<open>
  Claim C3 as stated fails. A is deregistered once, which removes it and closes its queue;
  a second Deregister for A changes neither the registry nor a queue, but the hub logs the
  disconnect line again and the \<^verbatim>\<open>disconnect\<close> handler runs again.
\<close>

theorem deregister_twice_fires_again:
  "run_unregister ex_app 0 ex_two = Inr ex_gone \<and>
   run_unregister ex_app 0 ex_gone =
     Inr (ex_gone\<lparr>logs := logs ex_gone @ [''Client A disconnected'', ''bye A'']\<rparr>)"
  by (simp add: run_unregister_def Lock_def Unlock_def close_chan_def fire_def Handle_def
        ex_Marshal_def ex_Unmarshal_any_def ex_bye_def log_line_def and_then_simps ex_app_def
        ex_gone_def ex_two_def ex_client_def make_chan_def fun_upd_twist)

text \<open>
  Claim C3, amended. For a Session that is not in the registry, with \<^verbatim>\<open>Server.mu\<close> free, the
  unregister case of the hub loop does nothing to the registry, the room index or any
  queue and closes nothing: it writes the disconnect line to the log and then runs the
  \<^verbatim>\<open>disconnect\<close> handler, if one is registered, on the state so logged.
\<close>

theorem unregister_absent:
  assumes "heap s client = Some cl" and "map_of (clients s) (ID cl) = None" and "lock_free s"
  shows "run_unregister d client s =
           fire d ''disconnect'' client (log_line (''Client '' @ ID cl @ '' disconnected'') s) \<and>
         (handlers d ''disconnect'' = None \<longrightarrow>
            run_unregister d client s = Inr (s\<lparr>logs := logs s @ [''Client '' @ ID cl @ '' disconnected'']\<rparr>))"
  using assms
  by (simp add: run_unregister_def Lock_def Unlock_def lock_free_def and_then_simps
        mu_restore_writer fire_def log_line_def)

theorem unregister_absent_witness:
  "heap ex_gone 0 = Some ((ex_client ''A'')\<lparr>send := (make_chan 256)\<lparr>closed := True\<rparr>\<rparr>) \<and>
   map_of (clients ex_gone) ''A'' = None \<and> lock_free ex_gone \<and>
   run_unregister ex_none 0 ex_gone =
     Inr (ex_gone\<lparr>logs := logs ex_gone @ [''Client A disconnected'']\<rparr>)"
proof -
  let ?A = "(ex_client ''A'')\<lparr>send := (make_chan 256)\<lparr>closed := True\<rparr>\<rparr>"
  have a: "heap ex_gone 0 = Some ?A" by (simp add: ex_gone_def)
  have g: "map_of (clients ex_gone) (ID ?A) = None" by (simp add: ex_gone_def ex_client_def)
  have l: "lock_free ex_gone" by (simp add: lock_free_def ex_gone_def ex_two_def)
  have n: "handlers ex_none ''disconnect'' = None" by (simp add: ex_none_def)
  have "run_unregister ex_none 0 ex_gone =
          Inr (ex_gone\<lparr>logs := logs ex_gone @ [''Client '' @ ID ?A @ '' disconnected'']\<rparr>)"
    using unregister_absent[OF a g l, of ex_none, THEN conjunct2] n by (rule mp)
  then show ?thesis using a g l by (simp add: ex_client_def)
qed

section \<open>The dispatch table: untyped handlers\<close>




text \<open>
  The example codec gives back every payload but \<^verbatim>\<open>[]byte{}\<close>, which is no inbound payload:
  the hub passes it to the lifecycle handlers, and one registered with \<^verbatim>\<open>On\<close> receives the
  empty string in its place.
\<close>

lemma ex_codec_round_trip:
  "data \<noteq> JEmptyBytes \<Longrightarrow> decoded ex_Marshal ex_Unmarshal_any data = Inr data"
  by (cases data) (simp_all add: decoded_def ex_Marshal_def ex_Unmarshal_any_def)

lemma lifecycle_payload_is_converted:
  "and_then (On ex_Marshal ex_Unmarshal_any ''disconnect'' ex_show ex_two ex_none)
     (\<lambda>d. fire d ''disconnect'' 0 ex_two) = Inr (log_line ''string '' ex_two) \<and>
   ex_show 0 JEmptyBytes ex_two = Inr (log_line ''bytes'' ex_two)"
  by (simp add: On_def Lock_def fire_def Handle_def ex_Marshal_def ex_Unmarshal_any_def
        ex_show_def and_then_simps ex_none_def ex_two_def)

section \<open>Broadcast\<close>

text \<open>
  Claim C1 describes a \<^verbatim>\<open>Broadcast\<close> that skips the caller, as \<^verbatim>\<open>BroadcastToRoom\<close> does. The
  broadcast case of the hub loop ranges over the whole registry and the message carries
  no sender. A broadcasts: its call takes the read lock and waits in the send; the hub
  receives the message and queues it for A as well as for B; A's call then returns.
\<close>

theorem Broadcast_reaches_sender:
  "Broadcast 0 ''ping'' (JObj [(''n'', JNum 1)]) ex_two = Inl (Sending ex_ping_sent) \<and>
   and_then (run ex_none [RecvBroadcast] ex_ping_sent) Broadcast_deferred =
     Inr (ex_two\<lparr>heap := [0 \<mapsto> (ex_client ''A'')\<lparr>send := (make_chan 256)\<lparr>buf := [ping]\<rparr>\<rparr>,
                          1 \<mapsto> (ex_client ''B'')\<lparr>send := (make_chan 256)\<lparr>buf := [ping]\<rparr>\<rparr>]\<rparr>)"
  by (simp add: Broadcast_def Broadcast_deferred_def RLock_def RUnlock_def run_broadcast_def
        send_or_shed_def try_send_def and_then_simps ex_ping_sent_def ex_two_def ex_client_def
        make_chan_def ping_def fun_upd_twist)

section \<open>Where the operations stop\<close>

text \<open>
  While a read lock is held the hub cannot take the write lock: after a handler error
  neither a registration nor a deregistration returns.
\<close>

lemma hub_blocks_under_read_lock:
  assumes "heap s client = Some cl" and "0 < readers (mu s)"
  shows "\<exists>s'. run_register d client s = Inl (Blocked s')"
    and "\<exists>s'. run_unregister d client s = Inl (Blocked s')"
  using assms by (simp_all add: run_register_def run_unregister_def Lock_def and_then_simps)

text \<open>
  The unregister case calls \<^verbatim>\<open>leaveRoom\<close> with the write lock held, and \<^verbatim>\<open>leaveRoom\<close> takes
  the write lock: deregistering a registered client that is in a room does not return.
\<close>

lemma unregister_in_room_blocks:
  assumes "heap s client = Some cl" and "map_of (clients s) (ID cl) = Some a"
    and "\<not> closed (send cl)" and "rooms cl = (room, b) # others" and "lock_free s"
  shows "\<exists>s'. run_unregister d client s = Inl (Blocked s')"
  using assms
  by (simp add: run_unregister_def Lock_def lock_free_def close_chan_def leaveRoom_def
        and_then_simps)

text \<open>
  The lifecycle handlers run on the hub's goroutine. A \<^verbatim>\<open>connect\<close> handler that calls
  \<^verbatim>\<open>Broadcast\<close> waits in the send for the hub to receive, and the hub is the caller: the
  register case does not return, and the read lock stays held.
\<close>

lemma Broadcast_on_hub_goroutine:
  assumes "heap s client = Some cl" and "lock_free s"
    and "handlers d ''connect'' =
           Some (Handle marshal unmarshal \<lparr>handler = (\<lambda>c p. Broadcast c event data)\<rparr>)"
    and "decoded marshal unmarshal JEmptyBytes = Inr p"
  shows "\<exists>s'. run_register d client s = Inl (Sending s') \<and> readers (mu s') = 1 \<and>
              broadcast s' = broadcast s @ [\<lparr>Event = event, Data = data\<rparr>]"
  using assms
  by (simp add: run_register_def Lock_def Unlock_def lock_free_def fire_def Handle_decoded
        Broadcast_def RLock_def log_line_def and_then_simps)

end
